theory Spec2Isabelle
  imports Main "HOL-Library.Sublist" "HOL-Library.Word" "HOL-Library.Code_Target_Nat"
begin

section \<open>JavaScript values and the built-ins the front end relies on\<close>

text \<open>
  The front end is TypeScript, but what the backend returns is typed \<^verbatim>\<open>any\<close> and never
  validated, so the run-time values are modelled as they are in JavaScript. A number is
  an integer from \<open>-2\<^sup>5\<^sup>3\<close> to \<open>2\<^sup>5\<^sup>3 - 1\<close>, held as a signed word of 54 bits: each of
  them is a double, is printed in plain decimal notation and is read back from that text
  exactly; the two zeros are not told apart, and no arithmetic is done on numbers. Strings
  are sequences of code units below 256, and an object is the list of its own enumerable
  properties in enumeration order with distinct keys.
\<close>

datatype jsval =
    JUndefined
  | JNull
  | JBool bool
  | JNum "54 word"
  | JStr string
  | JArr "jsval list"
  | JObj "(string \<times> jsval) list"

text \<open>What a \<^verbatim>\<open>throw\<close> or a rejected promise carries.\<close>

datatype js_exn =
    TypeError
  | Error string
  | AxiosError string

fun nullish :: "jsval \<Rightarrow> bool" where
  "nullish JUndefined = True"
| "nullish JNull = True"
| "nullish _ = False"

text \<open>\<^verbatim>\<open>ToBoolean\<close>: what \<^verbatim>\<open>||\<close>, \<^verbatim>\<open>!\<close> and \<^verbatim>\<open>if\<close> test.\<close>

fun truthy :: "jsval \<Rightarrow> bool" where
  "truthy JUndefined = False"
| "truthy JNull = False"
| "truthy (JBool b) = b"
| "truthy (JNum n) = (n \<noteq> 0)"
| "truthy (JStr s) = (s \<noteq> [])"
| "truthy (JArr _) = True"
| "truthy (JObj _) = True"

definition js_or :: "jsval \<Rightarrow> jsval \<Rightarrow> jsval" where
  "js_or a b = (if truthy a then a else b)"

text \<open>
  Reading a property of a value that is neither \<^verbatim>\<open>null\<close> nor \<^verbatim>\<open>undefined\<close>. The keys the
  front end reads (\<^verbatim>\<open>message\<close>, \<^verbatim>\<open>tool_result\<close>, \<^verbatim>\<open>text\<close>, \<^verbatim>\<open>data\<close>, ...) are no
  properties of the built-in prototypes, so a primitive or an array yields \<^verbatim>\<open>undefined\<close>.
\<close>

fun read_prop :: "jsval \<Rightarrow> string \<Rightarrow> jsval" where
  "read_prop (JObj ps) k = (case map_of ps k of Some v \<Rightarrow> v | None \<Rightarrow> JUndefined)"
| "read_prop _ k = JUndefined"

text \<open>\<^verbatim>\<open>v.k\<close> throws a TypeError on \<^verbatim>\<open>null\<close> and \<^verbatim>\<open>undefined\<close>; \<^verbatim>\<open>v?.k\<close> yields \<^verbatim>\<open>undefined\<close> there.\<close>

definition get_prop :: "jsval \<Rightarrow> string \<Rightarrow> js_exn + jsval" where
  "get_prop v k = (if nullish v then Inl TypeError else Inr (read_prop v k))"

definition opt_prop :: "jsval \<Rightarrow> string \<Rightarrow> jsval" where
  "opt_prop v k = (if nullish v then JUndefined else read_prop v k)"

text \<open>\<^verbatim>\<open>String.prototype.includes\<close>: does \<open>sub\<close> occur in \<open>s\<close> as a contiguous run?\<close>

fun str_includes :: "string \<Rightarrow> string \<Rightarrow> bool" where
  "str_includes [] sub = (sub = [])"
| "str_includes (c # s) sub = (prefix sub (c # s) \<or> str_includes s sub)"

text \<open>
  \<^verbatim>\<open>String.prototype.trim\<close> removes white space and line terminators at both ends. Of
  the code units below 256 these are TAB, LF, VT, FF, CR, SPACE and NBSP.
\<close>

definition is_ws :: "char \<Rightarrow> bool" where
  "is_ws c = (c \<in> set [CHR 0x09, CHR 0x0A, CHR 0x0B, CHR 0x0C, CHR 0x0D, CHR 0x20, CHR 0xA0])"

definition trim :: "string \<Rightarrow> string" where
  "trim s = rev (dropWhile is_ws (rev (dropWhile is_ws s)))"

text \<open>Decimal digits of an integer, as \<^verbatim>\<open>Number::toString\<close> prints one below \<open>10\<^sup>2\<^sup>1\<close>.\<close>

definition digit_char :: "nat \<Rightarrow> char" where
  "digit_char d = ''0123456789abcdef'' ! d"

fun show_nat :: "nat \<Rightarrow> string" where
  "show_nat n = (if n < 10 then [digit_char n] else show_nat (n div 10) @ [digit_char (n mod 10)])"

declare show_nat.simps [simp del]

definition show_int :: "int \<Rightarrow> string" where
  "show_int i = (if i < 0 then CHR ''-'' # show_nat (nat (- i)) else show_nat (nat i))"

text \<open>The value of a hexadecimal digit and of a run of decimal digits.\<close>

definition hex_val :: "char \<Rightarrow> nat option" where
  "hex_val c = map_of (zip ''0123456789abcdefABCDEF''
                           [0, 1, 2, 3, 4, 5, 6, 7, 8, 9, 10, 11, 12, 13, 14, 15, 10, 11, 12, 13, 14, 15]) c"

definition is_digit :: "char \<Rightarrow> bool" where
  "is_digit c = (c \<in> set ''0123456789'')"

definition digit_val :: "char \<Rightarrow> nat" where
  "digit_val c = (case hex_val c of Some d \<Rightarrow> d | None \<Rightarrow> 0)"

definition digits_val :: "string \<Rightarrow> nat" where
  "digits_val ds = foldl (\<lambda>acc c. 10 * acc + digit_val c) 0 ds"

text \<open>
  An array index: the decimal text, without leading zero, of a number below \<open>2\<^sup>3\<^sup>2 - 1\<close>.
  JavaScript enumerates the properties with such keys first, in ascending order, and the
  others after them in the order of their creation.
\<close>

definition is_index_key :: "string \<Rightarrow> bool" where
  "is_index_key k =
    (k \<noteq> [] \<and> list_all is_digit k \<and> \<not> (1 < length k \<and> hd k = CHR ''0'')
     \<and> digits_val k < 4294967295)"

text \<open>
  The assignment of one property: an existing key keeps its place, a new array index goes
  to its place among the indices, any other new key goes last. Then the own enumerable
  properties of a value, and object spread, which copies them.
\<close>

definition obj_set :: "(string \<times> jsval) list \<Rightarrow> string \<Rightarrow> jsval \<Rightarrow> (string \<times> jsval) list" where
  "obj_set ps k v =
    (if k \<in> fst ` set ps then map (\<lambda>(k', v'). if k' = k then (k', v) else (k', v')) ps
     else if is_index_key k then
       takeWhile (\<lambda>(k', v'). is_index_key k' \<and> digits_val k' < digits_val k) ps
       @ [(k, v)]
       @ dropWhile (\<lambda>(k', v'). is_index_key k' \<and> digits_val k' < digits_val k) ps
     else ps @ [(k, v)])"

fun own_props :: "jsval \<Rightarrow> (string \<times> jsval) list" where
  "own_props (JObj ps) = ps"
| "own_props (JArr vs) = zip (map show_nat [0..<length vs]) vs"
| "own_props (JStr s) = zip (map show_nat [0..<length s]) (map (\<lambda>c. JStr [c]) s)"
| "own_props _ = []"

definition obj_spread :: "(string \<times> jsval) list \<Rightarrow> jsval \<Rightarrow> (string \<times> jsval) list" where
  "obj_spread ps v = foldl (\<lambda>acc (k, x). obj_set acc k x) ps (own_props v)"

section \<open>JSON.stringify and JSON.parse\<close>

text \<open>
  \<^verbatim>\<open>JSON.stringify\<close> without replacer and indentation. \<open>None\<close> is the result \<^verbatim>\<open>undefined\<close>;
  inside an array \<^verbatim>\<open>undefined\<close> is written \<^verbatim>\<open>null\<close>, inside an object the property is left
  out.
\<close>

definition dquote :: char where
  "dquote = CHR 0x22"

definition backslash :: char where
  "backslash = CHR 0x5C"

definition quote_char :: "char \<Rightarrow> string" where
  "quote_char c =
    (if c = dquote then [backslash, dquote]
     else if c = backslash then [backslash, backslash]
     else if c = CHR 0x08 then [backslash, CHR ''b'']
     else if c = CHR 0x0C then [backslash, CHR ''f'']
     else if c = CHR 0x0A then [backslash, CHR ''n'']
     else if c = CHR 0x0D then [backslash, CHR ''r'']
     else if c = CHR 0x09 then [backslash, CHR ''t'']
     else if (of_char c :: nat) < 32 then
       [backslash, CHR ''u'', CHR ''0'', CHR ''0'',
        digit_char ((of_char c :: nat) div 16), digit_char ((of_char c :: nat) mod 16)]
     else [c])"

definition quote :: "string \<Rightarrow> string" where
  "quote s = dquote # concat (map quote_char s) @ [dquote]"

fun join :: "string \<Rightarrow> string list \<Rightarrow> string" where
  "join sep [] = []"
| "join sep [x] = x"
| "join sep (x # y # ys) = x @ sep @ join sep (y # ys)"

fun JSON_stringify :: "jsval \<Rightarrow> string option"
  and stringify_elems :: "jsval list \<Rightarrow> string list"
  and stringify_props :: "(string \<times> jsval) list \<Rightarrow> string list" where
  "JSON_stringify JUndefined = None"
| "JSON_stringify JNull = Some ''null''"
| "JSON_stringify (JBool b) = Some (if b then ''true'' else ''false'')"
| "JSON_stringify (JNum n) = Some (show_int (sint n))"
| "JSON_stringify (JStr s) = Some (quote s)"
| "JSON_stringify (JArr vs) = Some (''['' @ join '','' (stringify_elems vs) @ '']'')"
| "JSON_stringify (JObj ps) = Some (''{'' @ join '','' (stringify_props ps) @ ''}'')"
| "stringify_elems [] = []"
| "stringify_elems (v # vs) =
     (case JSON_stringify v of None \<Rightarrow> ''null'' | Some s \<Rightarrow> s) # stringify_elems vs"
| "stringify_props [] = []"
| "stringify_props ((k, v) # ps) =
     (case JSON_stringify v of
        None \<Rightarrow> stringify_props ps
      | Some s \<Rightarrow> (quote k @ '':'' @ s) # stringify_props ps)"

text \<open>The value of the expression \<^verbatim>\<open>JSON.stringify(v)\<close>: a string or \<^verbatim>\<open>undefined\<close>.\<close>

definition stringify_val :: "jsval \<Rightarrow> jsval" where
  "stringify_val v = (case JSON_stringify v of None \<Rightarrow> JUndefined | Some s \<Rightarrow> JStr s)"

text \<open>
  Modelled from the spec: the parser that reads the serialised context back belongs to
  the backend and is not among the sources; it is taken to be \<^verbatim>\<open>JSON.parse\<close> without
  reviver, after the JSON grammar. A text that is no JSON text is a \<open>SyntaxError\<close>. A
  number is read with fraction and exponent; when its exact value is no integer from
  \<open>-2\<^sup>5\<^sup>3\<close> to \<open>2\<^sup>5\<^sup>3 - 1\<close>, and likewise at a \<^verbatim>\<open>\u\<close> escape of a code unit from 256 on, the
  result is \<open>NotModelled\<close> and the rest of the text is not examined. The first argument of
  the three mutually recursive parsers bounds the number of values still to be read;
  \<open>OutOfFuel\<close> says that it did not suffice, and the length of the text is given.
\<close>

datatype parse_error = SyntaxError | NotModelled | OutOfFuel

definition is_json_ws :: "char \<Rightarrow> bool" where
  "is_json_ws c = (c \<in> set [CHR 0x20, CHR 0x09, CHR 0x0A, CHR 0x0D])"

definition skip_ws :: "string \<Rightarrow> string" where
  "skip_ws s = dropWhile is_json_ws s"

definition unescape :: "char \<Rightarrow> char option" where
  "unescape e =
    (if e = dquote then Some dquote
     else if e = backslash then Some backslash
     else if e = CHR ''/'' then Some (CHR ''/'')
     else if e = CHR ''b'' then Some (CHR 0x08)
     else if e = CHR ''f'' then Some (CHR 0x0C)
     else if e = CHR ''n'' then Some (CHR 0x0A)
     else if e = CHR ''r'' then Some (CHR 0x0D)
     else if e = CHR ''t'' then Some (CHR 0x09)
     else None)"

definition unicode_escape :: "char \<Rightarrow> char \<Rightarrow> char \<Rightarrow> char \<Rightarrow> parse_error + char" where
  "unicode_escape h1 h2 h3 h4 =
    (case (hex_val h1, hex_val h2, hex_val h3, hex_val h4) of
       (Some a, Some b, Some c, Some d) \<Rightarrow>
         (let n = ((a * 16 + b) * 16 + c) * 16 + d
          in if n < 256 then Inr (char_of n) else Inl NotModelled)
     | _ \<Rightarrow> Inl SyntaxError)"

text \<open>The characters of a string literal after its opening quote, up to the closing one.\<close>

fun parse_string_body :: "string \<Rightarrow> parse_error + string \<times> string" where
  "parse_string_body [] = Inl SyntaxError"
| "parse_string_body (c # cs) =
    (if c = dquote then Inr ([], cs)
     else if c = backslash then
       (case cs of
          [] \<Rightarrow> Inl SyntaxError
        | e # cs' \<Rightarrow>
            if e = CHR ''u'' then
              (case cs' of
                 h1 # h2 # h3 # h4 # cs'' \<Rightarrow>
                   (case unicode_escape h1 h2 h3 h4 of
                      Inl err \<Rightarrow> Inl err
                    | Inr d \<Rightarrow> map_sum id (\<lambda>(s, r). (d # s, r)) (parse_string_body cs''))
               | _ \<Rightarrow> Inl SyntaxError)
            else
              (case unescape e of
                 None \<Rightarrow> Inl SyntaxError
               | Some d \<Rightarrow> map_sum id (\<lambda>(s, r). (d # s, r)) (parse_string_body cs')))
     else if (of_char c :: nat) < 32 then Inl SyntaxError
     else map_sum id (\<lambda>(s, r). (c # s, r)) (parse_string_body cs))"

text \<open>
  The exact value \<open>m \<cdot> 10\<^sup>e\<close> of a number text when it is an integer. JavaScript reads a
  number as the double nearest to its exact value, which is that value itself for an
  integer from \<open>-2\<^sup>5\<^sup>3\<close> to \<open>2\<^sup>5\<^sup>3 - 1\<close>.
\<close>

definition exact_int :: "int \<Rightarrow> int \<Rightarrow> int option" where
  "exact_int m e =
    (if 0 \<le> e then Some (m * 10 ^ nat e)
     else if m mod 10 ^ nat (- e) = 0 then Some (m div 10 ^ nat (- e))
     else None)"

text \<open>
  A number: an optional minus sign, digits without a leading zero, an optional fraction
  (a point and digits) and an optional exponent (\<^verbatim>\<open>e\<close> or \<^verbatim>\<open>E\<close>, an optional sign and
  digits).
\<close>

definition parse_number :: "string \<Rightarrow> parse_error + jsval \<times> string" where
  "parse_number s =
    (let neg = (case s of [] \<Rightarrow> False | c # _ \<Rightarrow> c = CHR ''-'');
         s1 = (if neg then tl s else s);
         ds = takeWhile is_digit s1;
         r1 = dropWhile is_digit s1;
         has_frac = (case r1 of [] \<Rightarrow> False | c # _ \<Rightarrow> c = CHR ''.'');
         fs = (if has_frac then takeWhile is_digit (tl r1) else []);
         r2 = (if has_frac then dropWhile is_digit (tl r1) else r1);
         has_exp = (case r2 of [] \<Rightarrow> False | c # _ \<Rightarrow> c \<in> set ''eE'');
         s2 = (if has_exp then tl r2 else r2);
         eneg = (has_exp \<and> (case s2 of [] \<Rightarrow> False | c # _ \<Rightarrow> c = CHR ''-''));
         esign = (has_exp \<and> (case s2 of [] \<Rightarrow> False | c # _ \<Rightarrow> c \<in> set ''+-''));
         s3 = (if esign then tl s2 else s2);
         es = (if has_exp then takeWhile is_digit s3 else []);
         r3 = (if has_exp then dropWhile is_digit s3 else r2);
         m = int (digits_val (ds @ fs));
         e = (if eneg then - int (digits_val es) else int (digits_val es)) - int (length fs)
     in if ds = [] then Inl SyntaxError
        else if 1 < length ds \<and> hd ds = CHR ''0'' then Inl SyntaxError
        else if has_frac \<and> fs = [] then Inl SyntaxError
        else if has_exp \<and> es = [] then Inl SyntaxError
        else
          (case exact_int m e of
             None \<Rightarrow> Inl NotModelled
           | Some v \<Rightarrow>
               (let v' = (if neg then - v else v)
                in if - (2 ^ 53) \<le> v' \<and> v' < 2 ^ 53 then Inr (JNum (word_of_int v'), r3)
                   else Inl NotModelled)))"

definition obj_of_members :: "(string \<times> jsval) list \<Rightarrow> (string \<times> jsval) list" where
  "obj_of_members ps = foldl (\<lambda>acc (k, v). obj_set acc k v) [] ps"

fun parse_value :: "nat \<Rightarrow> string \<Rightarrow> parse_error + jsval \<times> string"
  and parse_elems :: "nat \<Rightarrow> string \<Rightarrow> parse_error + jsval list \<times> string"
  and parse_members :: "nat \<Rightarrow> string \<Rightarrow> parse_error + (string \<times> jsval) list \<times> string" where
  "parse_value 0 s = Inl OutOfFuel"
| "parse_value (Suc n) s =
    (case skip_ws s of
       [] \<Rightarrow> Inl SyntaxError
     | c # cs \<Rightarrow>
         if c = CHR ''['' then
           (case skip_ws cs of
              [] \<Rightarrow> Inl SyntaxError
            | d # r \<Rightarrow>
                if d = CHR '']'' then Inr (JArr [], r)
                else map_sum id (\<lambda>(vs, r'). (JArr vs, r')) (parse_elems n cs))
         else if c = CHR ''{'' then
           (case skip_ws cs of
              [] \<Rightarrow> Inl SyntaxError
            | d # r \<Rightarrow>
                if d = CHR ''}'' then Inr (JObj [], r)
                else map_sum id (\<lambda>(ps, r'). (JObj (obj_of_members ps), r')) (parse_members n cs))
         else if c = dquote then map_sum id (\<lambda>(str, r). (JStr str, r)) (parse_string_body cs)
         else if prefix ''null'' (c # cs) then Inr (JNull, drop 4 (c # cs))
         else if prefix ''true'' (c # cs) then Inr (JBool True, drop 4 (c # cs))
         else if prefix ''false'' (c # cs) then Inr (JBool False, drop 5 (c # cs))
         else parse_number (c # cs))"
| "parse_elems 0 s = Inl OutOfFuel"
| "parse_elems (Suc n) s =
    (case parse_value n s of
       Inl err \<Rightarrow> Inl err
     | Inr (v, r) \<Rightarrow>
         (case skip_ws r of
            [] \<Rightarrow> Inl SyntaxError
          | c # r' \<Rightarrow>
              if c = CHR '','' then map_sum id (\<lambda>(vs, r''). (v # vs, r'')) (parse_elems n r')
              else if c = CHR '']'' then Inr ([v], r')
              else Inl SyntaxError))"
| "parse_members 0 s = Inl OutOfFuel"
| "parse_members (Suc n) s =
    (case skip_ws s of
       [] \<Rightarrow> Inl SyntaxError
     | q # s1 \<Rightarrow>
         if q \<noteq> dquote then Inl SyntaxError
         else
           (case parse_string_body s1 of
              Inl err \<Rightarrow> Inl err
            | Inr (k, s2) \<Rightarrow>
                (case skip_ws s2 of
                   [] \<Rightarrow> Inl SyntaxError
                 | colon # s3 \<Rightarrow>
                     if colon \<noteq> CHR '':'' then Inl SyntaxError
                     else
                       (case parse_value n s3 of
                          Inl err \<Rightarrow> Inl err
                        | Inr (v, r) \<Rightarrow>
                            (case skip_ws r of
                               [] \<Rightarrow> Inl SyntaxError
                             | c # r' \<Rightarrow>
                                 if c = CHR '','' then
                                   map_sum id (\<lambda>(ps, r''). ((k, v) # ps, r'')) (parse_members n r')
                                 else if c = CHR ''}'' then Inr ([(k, v)], r')
                                 else Inl SyntaxError)))))"

definition JSON_parse :: "string \<Rightarrow> parse_error + jsval" where
  "JSON_parse s =
    (case parse_value (Suc (length s)) s of
       Inl err \<Rightarrow> Inl err
     | Inr (v, r) \<Rightarrow> if skip_ws r = [] then Inr v else Inl SyntaxError)"

text \<open>
  Keys in the order of enumeration: every array index stands before every other key, and
  the indices ascend.
\<close>

fun keys_ordered :: "string list \<Rightarrow> bool" where
  "keys_ordered [] = True"
| "keys_ordered [k] = True"
| "keys_ordered (k # k' # ks) =
    ((if is_index_key k' then is_index_key k \<and> digits_val k < digits_val k' else True)
     \<and> keys_ordered (k' # ks))"

text \<open>
  The values that \<^verbatim>\<open>JSON.parse\<close> can return: no \<^verbatim>\<open>undefined\<close> anywhere, and in an
  object no key twice and the keys in the order of enumeration. A text is delimited when
  it is empty or begins with a comma or a closing bracket, as the text after a value
  inside an array or object does; a text starts a value when its first character is
  neither white space nor a separator.
\<close>

fun json_clean :: "jsval \<Rightarrow> bool"
  and clean_elems :: "jsval list \<Rightarrow> bool"
  and clean_props :: "(string \<times> jsval) list \<Rightarrow> bool" where
  "json_clean JUndefined = False"
| "json_clean JNull = True"
| "json_clean (JBool b) = True"
| "json_clean (JNum n) = True"
| "json_clean (JStr s) = True"
| "json_clean (JArr vs) = clean_elems vs"
| "json_clean (JObj ps) = (keys_ordered (map fst ps) \<and> clean_props ps)"
| "clean_elems [] = True"
| "clean_elems (v # vs) = (json_clean v \<and> clean_elems vs)"
| "clean_props [] = True"
| "clean_props ((k, v) # ps) = (json_clean v \<and> k \<notin> fst ` set ps \<and> clean_props ps)"

definition delimited :: "string \<Rightarrow> bool" where
  "delimited rest = (case rest of [] \<Rightarrow> True | c # _ \<Rightarrow> c \<in> set '',]}'')"

definition starts_value :: "string \<Rightarrow> bool" where
  "starts_value s = (case s of [] \<Rightarrow> False | c # _ \<Rightarrow> \<not> is_json_ws c \<and> c \<notin> set '',]}:'')"

section \<open>The HTTP client (services/api.ts)\<close>

record File =
  file_name :: string
  file_size :: nat
  file_type :: string

datatype FormValue = FText string | FFile File

record Request =
  url :: string
  form :: "(string \<times> FormValue) list"

text \<open>
  \<^verbatim>\<open>api.post\<close> together with the backend is a parameter of the model: for a request it
  either rejects (\<open>Inl\<close>: transport error or a status outside 2xx) or resolves, and the
  client returns \<^verbatim>\<open>response.data\<close> (\<open>Inr\<close>), whatever value that is.
\<close>

type_synonym backend = "Request \<Rightarrow> js_exn + jsval"

definition uploadPDF :: "backend \<Rightarrow> File \<Rightarrow> js_exn + jsval" where
  "uploadPDF post file = post \<lparr>url = ''/api/upload/pdf'', form = [(''file'', FFile file)]\<rparr>"

definition uploadCSV :: "backend \<Rightarrow> File \<Rightarrow> js_exn + jsval" where
  "uploadCSV post file = post \<lparr>url = ''/api/upload/csv'', form = [(''file'', FFile file)]\<rparr>"

section \<open>File upload (components/FileUpload.tsx)\<close>

record UploadedFile =
  uf_id :: string
  uf_file :: File
  uf_name :: string
  uf_size :: nat
  uf_type :: string
  uploadResponse :: jsval

text \<open>
  The body of the \<^verbatim>\<open>try\<close> block of one per-file task of \<^verbatim>\<open>onDrop\<close>. \<open>rid\<close> is the
  string \<^verbatim>\<open>Math.random().toString(36).substr(2, 9)\<close> this task draws.
\<close>

definition upload_try :: "backend \<Rightarrow> string \<Rightarrow> File \<Rightarrow> js_exn + UploadedFile" where
  "upload_try post rid file =
    (let fileType = file_type file;
         result = (\<lambda>uploadResponse.
           \<lparr>uf_id = rid, uf_file = file, uf_name = file_name file, uf_size = file_size file,
            uf_type = file_type file, uploadResponse = uploadResponse\<rparr>)
     in if fileType = ''application/pdf'' then
          (case uploadPDF post file of
             Inl e \<Rightarrow> Inl e
           | Inr response \<Rightarrow>
               (case get_prop response ''text'' of
                  Inl e \<Rightarrow> Inl e
                | Inr text \<Rightarrow>
                    Inr (result (JObj [(''text'', text),
                                       (''metadata'', JObj [(''type'', JStr ''pdf'')])]))))
        else if fileType = ''text/csv'' \<or> str_includes fileType ''excel'' then
          (case uploadCSV post file of
             Inl e \<Rightarrow> Inl e
           | Inr response \<Rightarrow>
               (case get_prop response ''data'' of
                  Inl e \<Rightarrow> Inl e
                | Inr data \<Rightarrow>
                    (case get_prop response ''columns'' of
                       Inl e \<Rightarrow> Inl e
                     | Inr columns \<Rightarrow>
                         Inr (result (JObj [(''data'', data), (''columns'', columns),
                                            (''metadata'', JObj [(''type'', JStr ''csv'')])])))))
        else Inl (Error ''Unsupported file type''))"

text \<open>
  The whole task: the \<^verbatim>\<open>catch\<close> logs and returns \<^verbatim>\<open>null\<close> (\<open>None\<close>), so the promise of the
  task is never rejected.
\<close>

definition upload_task :: "backend \<Rightarrow> string \<Rightarrow> File \<Rightarrow> js_exn + UploadedFile option" where
  "upload_task post rid file =
    (case upload_try post rid file of Inl e \<Rightarrow> Inr None | Inr u \<Rightarrow> Inr (Some u))"

text \<open>\<^verbatim>\<open>removeFile\<close>: what is handed to \<^verbatim>\<open>onFilesChange\<close>.\<close>

definition removeFile :: "UploadedFile list \<Rightarrow> string \<Rightarrow> UploadedFile list" where
  "removeFile uploadedFiles i = filter (\<lambda>file. uf_id file \<noteq> i) uploadedFiles"

text \<open>
  \<^verbatim>\<open>Promise.all\<close>. The promises settle one after another in the order \<open>order\<close> (a list of
  indices); a fulfilled promise stores its value in the slot of its own index, a rejected
  one rejects the whole. The result is \<open>None\<close> as long as a slot is empty.
\<close>

fun settle_all :: "(js_exn + 'a) list \<Rightarrow> nat list \<Rightarrow> 'a option list \<Rightarrow> js_exn + 'a option list" where
  "settle_all ps [] vals = Inr vals"
| "settle_all ps (i # order) vals =
    (if i < length ps then
       (case ps ! i of
          Inl e \<Rightarrow> Inl e
        | Inr v \<Rightarrow> settle_all ps order (vals[i := Some v]))
     else settle_all ps order vals)"

definition Promise_all :: "(js_exn + 'a) list \<Rightarrow> nat list \<Rightarrow> (js_exn + 'a list) option" where
  "Promise_all ps order =
    (case settle_all ps order (replicate (length ps) None) of
       Inl e \<Rightarrow> Some (Inl e)
     | Inr vals \<Rightarrow> map_option Inr (those vals))"

text \<open>
  \<^verbatim>\<open>onDrop\<close>. Task \<open>i\<close> (the file at index \<open>i\<close>) talks to the backend \<open>net i\<close> and draws
  the id \<open>rand i\<close>; \<open>order\<close> is the order in which the tasks complete. The result is the
  list handed to \<^verbatim>\<open>onFilesChange\<close> (\<open>Inr\<close>), an exception that leaves \<^verbatim>\<open>onDrop\<close>
  (\<open>Inl\<close>), or \<open>None\<close> while uploads are pending. \<open>uploadedFiles\<close> is the list the
  callback has captured.
\<close>

definition onDrop ::
  "(nat \<Rightarrow> backend) \<Rightarrow> (nat \<Rightarrow> string) \<Rightarrow> nat list \<Rightarrow> UploadedFile list \<Rightarrow> File list
     \<Rightarrow> (js_exn + UploadedFile list) option" where
  "onDrop net rand order uploadedFiles acceptedFiles =
    (let uploadPromises =
           map (\<lambda>(i, file). upload_task (net i) (rand i) file) (enumerate 0 acceptedFiles)
     in case Promise_all uploadPromises order of
          None \<Rightarrow> None
        | Some (Inl e) \<Rightarrow> Some (Inl e)
        | Some (Inr uploadedResults) \<Rightarrow>
            (let successfulUploads = filter (\<lambda>result. result \<noteq> None) uploadedResults
             in Some (Inr (uploadedFiles @ map the successfulUploads))))"

section \<open>The conversation (ChatInterface)\<close>

text \<open>
  A message as it is at run time: \<open>content\<close> and the chart fields hold whatever the
  response held, \<open>JUndefined\<close> standing for an absent field as well. A \<^verbatim>\<open>Date\<close> is
  identified with its ISO text, which is all that \<^verbatim>\<open>JSON.stringify\<close> reads of it.
\<close>

datatype Role = User | Assistant

type_synonym instant = string

record ChatMessage =
  role :: Role
  content :: jsval
  timestamp :: instant
  chartData :: jsval
  toolType :: jsval
  statistics :: jsval
  chartMetadata :: jsval

definition message_json :: "ChatMessage \<Rightarrow> jsval" where
  "message_json m =
    JObj [(''role'', JStr (case role m of User \<Rightarrow> ''user'' | Assistant \<Rightarrow> ''assistant'')),
          (''content'', content m),
          (''timestamp'', JStr (timestamp m)),
          (''chartData'', chartData m),
          (''toolType'', toolType m),
          (''statistics'', statistics m),
          (''chartMetadata'', chartMetadata m)]"

text \<open>\<^verbatim>\<open>FormData.append\<close> turns its value into a string: \<^verbatim>\<open>undefined\<close> becomes that word.\<close>

definition form_text :: "string option \<Rightarrow> string" where
  "form_text v = (case v of None \<Rightarrow> ''undefined'' | Some s \<Rightarrow> s)"

text \<open>
  \<^verbatim>\<open>chatAPI.sendMessage\<close>: the form it posts, and the call. An optional parameter that is
  not passed is \<open>None\<close>.
\<close>

definition sendMessage_request ::
  "string \<Rightarrow> ChatMessage list \<Rightarrow> string option \<Rightarrow> string option \<Rightarrow> string option \<Rightarrow> Request" where
  "sendMessage_request message chatHistory persona recipientEmail csvContext =
    \<lparr>url = ''/api/chat'',
     form =
       [(''message'', FText message),
        (''chat_history'', FText (form_text (JSON_stringify (JArr (map message_json chatHistory))))),
        (''persona'', FText (case persona of None \<Rightarrow> ''Novice Guide'' | Some p \<Rightarrow> p))]
       @ (case recipientEmail of
            None \<Rightarrow> []
          | Some r \<Rightarrow> if r \<noteq> [] then [(''recipient_email'', FText r)] else [])
       @ (case csvContext of
            None \<Rightarrow> []
          | Some c \<Rightarrow> if c \<noteq> [] then [(''csv_context'', FText c)] else [])\<rparr>"

definition sendMessage ::
  "backend \<Rightarrow> string \<Rightarrow> ChatMessage list \<Rightarrow> string option \<Rightarrow> string option \<Rightarrow> string option
     \<Rightarrow> js_exn + jsval" where
  "sendMessage post message chatHistory persona recipientEmail csvContext =
    post (sendMessage_request message chatHistory persona recipientEmail csvContext)"

record ChatState =
  messages :: "ChatMessage list"
  isLoading :: bool

text \<open>One element of \<^verbatim>\<open>fileContext\<close>.\<close>

definition file_context_record :: "UploadedFile \<Rightarrow> jsval" where
  "file_context_record file =
    (let isCSV = (uf_type file = ''text/csv'' \<or> str_includes (uf_type file) ''excel'')
     in JObj
          [(''name'', JStr (uf_name file)),
           (''type'', JStr (uf_type file)),
           (''content'',
              if isCSV then stringify_val (js_or (opt_prop (uploadResponse file) ''data'') (JArr []))
              else js_or (opt_prop (uploadResponse file) ''text'') (JStr [])),
           (''metadata'',
              JObj (obj_spread
                     [(''columns'', js_or (opt_prop (uploadResponse file) ''columns'') (JArr []))]
                     (js_or (opt_prop (uploadResponse file) ''metadata'') (JObj []))))])"

definition fileContext :: "UploadedFile list \<Rightarrow> jsval" where
  "fileContext uploadedFiles =
    JArr (if 0 < length uploadedFiles then map file_context_record uploadedFiles else [])"

text \<open>The request that \<^verbatim>\<open>handleSendMessage\<close> sends for a message, given the history it holds.\<close>

definition chat_request :: "string \<Rightarrow> UploadedFile list \<Rightarrow> ChatMessage list \<Rightarrow> string \<Rightarrow> Request" where
  "chat_request selectedPersona uploadedFiles history message =
    sendMessage_request message history (Some selectedPersona) None
      (JSON_stringify (fileContext uploadedFiles))"

text \<open>
  The \<^verbatim>\<open>try\<close> block of \<^verbatim>\<open>handleSendMessage\<close> from the call of the backend on: the
  assistant message, or what is thrown. \<open>now\<close> is the clock when the message is built.
\<close>

definition merge_response :: "instant \<Rightarrow> js_exn + jsval \<Rightarrow> js_exn + ChatMessage" where
  "merge_response now outcome =
    (case outcome of
       Inl e \<Rightarrow> Inl e
     | Inr response \<Rightarrow>
         (case get_prop response ''message'' of
            Inl e \<Rightarrow> Inl e
          | Inr msg \<Rightarrow>
         (case get_prop response ''tool_result'' of
            Inl e \<Rightarrow> Inl e
          | Inr tool_result \<Rightarrow>
         (case get_prop response ''tool_type'' of
            Inl e \<Rightarrow> Inl e
          | Inr tool_type \<Rightarrow>
              Inr \<lparr>role = Assistant, content = msg, timestamp = now,
                   chartData = opt_prop tool_result ''chart_data'',
                   toolType = tool_type,
                   statistics = opt_prop tool_result ''data_summary'',
                   chartMetadata = opt_prop tool_result ''chart_metadata''\<rparr>))))"

definition apology :: string where
  "apology = ''Sorry, I encountered an error. Please try again.''"

definition errorMessage :: "instant \<Rightarrow> ChatMessage" where
  "errorMessage now =
    \<lparr>role = Assistant, content = JStr apology, timestamp = now,
     chartData = JUndefined, toolType = JUndefined, statistics = JUndefined,
     chartMetadata = JUndefined\<rparr>"

text \<open>
  \<^verbatim>\<open>handleSendMessage\<close>, run from the state \<open>st\<close> to its end without another update of the
  state in between: the new state and the requests that went out. \<open>now\<close> and \<open>now'\<close> are
  the two readings of the clock.
\<close>

definition handleSendMessage ::
  "backend \<Rightarrow> instant \<Rightarrow> instant \<Rightarrow> string \<Rightarrow> UploadedFile list \<Rightarrow> ChatState \<Rightarrow> string
     \<Rightarrow> ChatState \<times> Request list" where
  "handleSendMessage post now now' selectedPersona uploadedFiles st message =
    (if trim message = [] then (st, [])
     else
       (let userMessage =
              \<lparr>role = User, content = JStr message, timestamp = now,
               chartData = JUndefined, toolType = JUndefined, statistics = JUndefined,
               chartMetadata = JUndefined\<rparr>;
            st1 = st\<lparr>messages := messages st @ [userMessage], isLoading := True\<rparr>;
            request = chat_request selectedPersona uploadedFiles (messages st) message;
            st2 = (case merge_response now' (post request) of
                     Inr assistantMessage \<Rightarrow>
                       st1\<lparr>messages := messages st1 @ [assistantMessage]\<rparr>
                   | Inl error \<Rightarrow>
                       st1\<lparr>messages := messages st1 @ [errorMessage now']\<rparr>)
        in (st2\<lparr>isLoading := False\<rparr>, [request])))"

section \<open>Chart export (ChartDisplay)\<close>

text \<open>The class \<^verbatim>\<open>\w\<close> of a regular expression.\<close>

definition is_word_char :: "char \<Rightarrow> bool" where
  "is_word_char c =
    (c \<in> set (''abcdefghijklmnopqrstuvwxyz'' @ ''ABCDEFGHIJKLMNOPQRSTUVWXYZ'' @ ''0123456789_''))"

text \<open>
  \<^verbatim>\<open>chartData.replace(/^data:image\/\w+;base64,/, "")\<close>. The run of word characters is
  followed by a semicolon, which is no word character, so the longest run is the only
  candidate.
\<close>

definition strip_data_prefix :: "string \<Rightarrow> string" where
  "strip_data_prefix chart =
    (if prefix ''data:image/'' chart then
       (let rest = drop (length ''data:image/'') chart;
            w = takeWhile is_word_char rest;
            after = dropWhile is_word_char rest
        in if w \<noteq> [] \<and> prefix '';base64,'' after then drop (length '';base64,'') after
           else chart)
     else chart)"

text \<open>\<^verbatim>\<open>toolType.replace(/_/g, '-')\<close> and the file name built from it.\<close>

definition replace_underscores :: "string \<Rightarrow> string" where
  "replace_underscores tool = map (\<lambda>c. if c = CHR ''_'' then CHR ''-'' else c) tool"

definition export_filename :: "string \<Rightarrow> string" where
  "export_filename tool = replace_underscores tool @ ''-chart.png''"

text \<open>
  The download handler, with \<open>chart\<close> for \<^verbatim>\<open>chartData\<close> and \<open>tool\<close> for \<^verbatim>\<open>toolType\<close>:
  the base64 text handed to the decoder and the name handed to \<^verbatim>\<open>saveAs\<close>.
\<close>

definition download_chart :: "string \<Rightarrow> string \<Rightarrow> string \<times> string" where
  "download_chart chart tool = (strip_data_prefix chart, export_filename tool)"

text \<open>
  The file name as the specification words it, for comparison: every run of characters
  that are neither letters nor digits becomes one hyphen.
\<close>

definition is_alnum :: "char \<Rightarrow> bool" where
  "is_alnum c = (is_word_char c \<and> c \<noteq> CHR ''_'')"

function spec_normalize :: "string \<Rightarrow> string" where
  "spec_normalize [] = []"
| "spec_normalize (c # cs) =
    (if is_alnum c then c # spec_normalize cs
     else CHR ''-'' # spec_normalize (dropWhile (\<lambda>d. \<not> is_alnum d) cs))"
  by pat_completeness auto
termination
  by (relation "measure length") (auto simp: length_dropWhile_le less_Suc_eq_le)

definition spec_filename :: "string \<Rightarrow> string" where
  "spec_filename tool = spec_normalize tool @ ''-chart.png''"

section \<open>Sample data\<close>

text \<open>An uploaded-file list entry with a given id and name.\<close>

definition sample_entry :: "string \<Rightarrow> string \<Rightarrow> UploadedFile" where
  "sample_entry i n =
    \<lparr>uf_id = i, uf_file = \<lparr>file_name = n, file_size = 1, file_type = ''text/csv''\<rparr>,
     uf_name = n, uf_size = 1, uf_type = ''text/csv'', uploadResponse = JObj []\<rparr>"

text \<open>The table with the one row \<^verbatim>\<open>{a: 1, b: 2}\<close> and the columns \<^verbatim>\<open>a\<close>, \<^verbatim>\<open>b\<close>.\<close>

definition sample_rows :: jsval where
  "sample_rows = JArr [JObj [(''a'', JNum 1), (''b'', JNum 2)]]"

definition sample_columns :: jsval where
  "sample_columns = JArr [JStr ''a'', JStr ''b'']"

text \<open>Three files: a CSV file, a PDF file and a plain text file, which is not supported.\<close>

definition csv_file :: File where
  "csv_file = \<lparr>file_name = ''t.csv'', file_size = 12, file_type = ''text/csv''\<rparr>"

definition pdf_file :: File where
  "pdf_file = \<lparr>file_name = ''sop.pdf'', file_size = 2048, file_type = ''application/pdf''\<rparr>"

definition txt_file :: File where
  "txt_file = \<lparr>file_name = ''notes.txt'', file_size = 5, file_type = ''text/plain''\<rparr>"

text \<open>A backend that parses every upload: the table above for a CSV file, a text for a PDF.\<close>

definition parsing_backend :: backend where
  "parsing_backend request =
    (if url request = ''/api/upload/pdf'' then Inr (JObj [(''text'', JStr ''Procedure'')])
     else Inr (JObj [(''data'', sample_rows), (''columns'', sample_columns)]))"

definition sample_ids :: "nat \<Rightarrow> string" where
  "sample_ids i = [CHR ''f'', digit_char i]"

text \<open>What \<^verbatim>\<open>onDrop\<close> makes of the CSV file drawn as task \<open>i\<close> under that backend.\<close>

definition csv_entry :: "nat \<Rightarrow> UploadedFile" where
  "csv_entry i =
    \<lparr>uf_id = sample_ids i, uf_file = csv_file, uf_name = ''t.csv'', uf_size = 12,
     uf_type = ''text/csv'',
     uploadResponse = JObj [(''data'', sample_rows), (''columns'', sample_columns),
                            (''metadata'', JObj [(''type'', JStr ''csv'')])]\<rparr>"

definition pdf_entry :: "nat \<Rightarrow> UploadedFile" where
  "pdf_entry i =
    \<lparr>uf_id = sample_ids i, uf_file = pdf_file, uf_name = ''sop.pdf'', uf_size = 2048,
     uf_type = ''application/pdf'',
     uploadResponse = JObj [(''text'', JStr ''Procedure''),
                            (''metadata'', JObj [(''type'', JStr ''pdf'')])]\<rparr>"

definition empty_chat :: ChatState where
  "empty_chat = \<lparr>messages = [], isLoading = False\<rparr>"

text \<open>A conversation that holds one earlier question of the user.\<close>

definition earlier_chat :: ChatState where
  "earlier_chat =
    \<lparr>messages =
       [\<lparr>role = User, content = JStr ''q'', timestamp = ''2024-05-01T10:00:00.000Z'',
         chartData = JUndefined, toolType = JUndefined, statistics = JUndefined,
         chartMetadata = JUndefined\<rparr>],
     isLoading = False\<rparr>"

text \<open>The entry of the uploaded-file list for the table above.\<close>

definition sample_csv :: UploadedFile where
  "sample_csv = csv_entry 0"

section \<open>Facts about the built-ins\<close>

lemmas json_eval =
  show_int_def show_nat.simps digit_char_def quote_def quote_char_def dquote_def backslash_def
  JSON_parse_def skip_ws_def is_json_ws_def parse_number_def is_digit_def digits_val_def
  digit_val_def hex_val_def obj_of_members_def obj_set_def unescape_def is_index_key_def

lemmas sample_eval =
  digit_char_def csv_file_def pdf_file_def txt_file_def parsing_backend_def sample_ids_def csv_entry_def
  pdf_entry_def uploadPDF_def uploadCSV_def get_prop_def upload_try_def Let_def

text \<open>A string trims to the empty string exactly when all of it is white space.\<close>

lemma trim_Nil_iff: "trim s = [] \<longleftrightarrow> (\<forall>c \<in> set s. is_ws c)"
proof
  assume "trim s = []"
  then have all: "\<forall>c \<in> set (dropWhile is_ws s). is_ws c"
    by (simp add: trim_def dropWhile_eq_Nil_conv)
  show "\<forall>c \<in> set s. is_ws c"
  proof (cases "dropWhile is_ws s = []")
    case True
    then show ?thesis by (simp add: dropWhile_eq_Nil_conv)
  next
    case False
    then have "\<not> is_ws (hd (dropWhile is_ws s))" by (rule hd_dropWhile)
    moreover from False have "hd (dropWhile is_ws s) \<in> set (dropWhile is_ws s)" by simp
    ultimately show ?thesis using all by blast
  qed
next
  assume "\<forall>c \<in> set s. is_ws c"
  then have "dropWhile is_ws s = []" by (simp add: dropWhile_eq_Nil_conv)
  then have "trim s = rev (dropWhile is_ws (rev []))" by (simp only: trim_def)
  then show "trim s = []" by simp
qed

lemma those_map_Some: "those (map Some xs) = Some xs"
  by (induction xs) simp_all

text \<open>Fulfilled promises: every completion fills the slot of its own index.\<close>

lemma settle_all_fulfilled:
  assumes "length vals = length xs"
  shows "settle_all (map Inr xs) order vals
    = Inr (map (\<lambda>i. if i \<in> set order then Some (xs ! i) else vals ! i) [0..<length xs])"
  using assms
proof (induction order arbitrary: vals)
  case Nil
  have "map ((!) vals) [0..<length vals] = vals" by (rule map_nth)
  with Nil show ?case by simp
next
  case (Cons i order)
  show ?case
  proof (cases "i < length xs")
    case True
    have len: "length (vals[i := Some (xs ! i)]) = length xs" using Cons.prems by simp
    have "map (\<lambda>j. if j \<in> set order then Some (xs ! j) else vals[i := Some (xs ! i)] ! j) [0..<length xs]
        = map (\<lambda>j. if j \<in> set (i # order) then Some (xs ! j) else vals ! j) [0..<length xs]"
      using Cons.prems by (auto simp: nth_list_update)
    with True Cons.IH [OF len] show ?thesis by simp
  next
    case False
    have "map (\<lambda>j. if j \<in> set order then Some (xs ! j) else vals ! j) [0..<length xs]
        = map (\<lambda>j. if j \<in> set (i # order) then Some (xs ! j) else vals ! j) [0..<length xs]"
      using False by auto
    with False Cons.IH [OF Cons.prems] show ?thesis by simp
  qed
qed

lemma Promise_all_fulfilled:
  assumes "{..<length xs} \<subseteq> set order"
  shows "Promise_all (map Inr xs) order = Some (Inr xs)"
proof -
  have "map (\<lambda>i. if i \<in> set order then Some (xs ! i) else replicate (length xs) None ! i) [0..<length xs]
      = map (\<lambda>i. Some (xs ! i)) [0..<length xs]"
    using assms by auto
  also have "\<dots> = map Some xs"
    by (simp add: map_nth flip: map_map [unfolded comp_def])
  finally show ?thesis
    by (simp add: Promise_all_def settle_all_fulfilled those_map_Some)
qed

section \<open>The JSON text of a value parses back to the value\<close>

lemma hex_val_digit_char: "d < 16 \<Longrightarrow> hex_val (digit_char d) = Some d"
proof -
  assume "d < 16"
  then have "d \<in> set [0..<16]" by simp
  then show ?thesis
    by (simp add: upt_rec hex_val_def digit_char_def) (elim disjE; simp)
qed

lemma digit_char_is_digit: "d < 10 \<Longrightarrow> is_digit (digit_char d)"
proof -
  assume "d < 10"
  then have "d \<in> set [0..<10]" by simp
  then show ?thesis
    by (simp add: upt_rec is_digit_def digit_char_def) (elim disjE; simp)
qed

lemma digit_char_zero: "d < 10 \<Longrightarrow> digit_char d = CHR ''0'' \<longleftrightarrow> d = 0"
proof -
  assume "d < 10"
  then have "d \<in> set [0..<10]" by simp
  then show ?thesis
    by (simp add: upt_rec digit_char_def) (elim disjE; simp)
qed

lemma digit_val_digit_char: "d < 10 \<Longrightarrow> digit_val (digit_char d) = d"
  by (simp add: digit_val_def hex_val_digit_char)

lemma show_nat_digits: "\<forall>c \<in> set (show_nat n). is_digit c"
proof (induction n rule: show_nat.induct)
  case (1 n)
  show ?case
  proof (cases "n < 10")
    case True
    then show ?thesis by (subst show_nat.simps) (simp add: digit_char_is_digit)
  next
    case False
    with 1 show ?thesis by (subst show_nat.simps) (simp add: digit_char_is_digit)
  qed
qed

lemma show_nat_nonempty: "show_nat n \<noteq> []"
  by (subst show_nat.simps) simp

lemma digits_val_Nil: "digits_val [] = 0"
  by (simp add: digits_val_def)

lemma digits_val_snoc: "digits_val (ds @ [c]) = 10 * digits_val ds + digit_val c"
  by (simp add: digits_val_def)

lemma digits_val_show_nat: "digits_val (show_nat n) = n"
proof (induction n rule: show_nat.induct)
  case (1 n)
  show ?case
  proof (cases "n < 10")
    case True
    then show ?thesis by (subst show_nat.simps) (simp add: digits_val_def digit_val_digit_char)
  next
    case False
    with 1 have "digits_val (show_nat (n div 10)) = n div 10" by simp
    with False show ?thesis
      by (subst show_nat.simps) (simp add: digits_val_snoc digit_val_digit_char)
  qed
qed

lemma show_nat_no_leading_zero:
  "1 < length (show_nat n) \<Longrightarrow> hd (show_nat n) \<noteq> CHR ''0''"
proof (induction n rule: show_nat.induct)
  case (1 n)
  show ?case
  proof (cases "n < 10")
    case True
    with "1.prems" show ?thesis by (subst (asm) show_nat.simps) simp
  next
    case False
    show ?thesis
    proof (cases "n div 10 < 10")
      case True
      from False have "n div 10 \<noteq> 0" by simp
      with True have "digit_char (n div 10) \<noteq> CHR ''0''" by (simp add: digit_char_zero)
      moreover have "show_nat n = [digit_char (n div 10), digit_char (n mod 10)]"
        using False True by (subst show_nat.simps, subst show_nat.simps) simp
      ultimately show ?thesis by simp
    next
      case F2: False
      then have "1 < length (show_nat (n div 10))"
        by (subst show_nat.simps) (simp add: show_nat_nonempty Suc_lessI)
      with 1 False have "hd (show_nat (n div 10)) \<noteq> CHR ''0''" by simp
      moreover have "show_nat n = show_nat (n div 10) @ [digit_char (n mod 10)]"
        using False by (subst show_nat.simps) simp
      ultimately show ?thesis by (simp add: show_nat_nonempty)
    qed
  qed
qed


lemma takeWhile_digits:
  assumes "\<forall>c \<in> set ds. is_digit c" and "delimited rest"
  shows "takeWhile is_digit (ds @ rest) = ds" and "dropWhile is_digit (ds @ rest) = rest"
proof -
  have "takeWhile is_digit rest = []" and "dropWhile is_digit rest = rest"
    using assms(2) by (auto simp: delimited_def is_digit_def split: list.splits)
  with assms(1) show "takeWhile is_digit (ds @ rest) = ds" and "dropWhile is_digit (ds @ rest) = rest"
    by (simp_all add: takeWhile_append2 dropWhile_append2)
qed

lemma delimited_no_fraction:
  assumes "delimited rest"
  shows "(case rest of [] \<Rightarrow> False | c # _ \<Rightarrow> c = CHR ''.'') = False"
    and "(case rest of [] \<Rightarrow> False | c # _ \<Rightarrow> c \<in> set ''eE'') = False"
  using assms by (auto simp: delimited_def split: list.splits)

text \<open>The digits of a natural number, with or without a minus sign in front, are read back.\<close>

lemma parse_number_show_nat:
  assumes "delimited rest" and "int n < 2 ^ 53"
  shows "parse_number (show_nat n @ rest) = Inr (JNum (word_of_int (int n)), rest)"
proof -
  obtain c cs where c: "show_nat n = c # cs"
    using show_nat_nonempty [of n] by (cases "show_nat n") auto
  have "is_digit c" using show_nat_digits [of n] c by simp
  then have nominus: "c \<noteq> CHR ''-''" by (auto simp: is_digit_def)
  have neg: "(case show_nat n @ rest of [] \<Rightarrow> False | c # _ \<Rightarrow> c = CHR ''-'') = False"
    using c nominus by simp
  have lead: "\<not> (1 < length (show_nat n) \<and> hd (show_nat n) = CHR ''0'')"
    using show_nat_no_leading_zero [of n] by blast
  have exact: "exact_int (int n) 0 = Some (int n)" by (simp add: exact_int_def)
  note plain = delimited_no_fraction [OF assms(1)]
  show ?thesis
    unfolding parse_number_def Let_def neg
    using takeWhile_digits [OF show_nat_digits assms(1), of n] lead assms(2)
    by (simp add: plain show_nat_nonempty digits_val_show_nat digits_val_Nil exact)
qed

lemma parse_number_minus_show_nat:
  assumes "delimited rest" and "int n \<le> 2 ^ 53"
  shows "parse_number (CHR ''-'' # show_nat n @ rest) = Inr (JNum (word_of_int (- int n)), rest)"
proof -
  have lead: "\<not> (1 < length (show_nat n) \<and> hd (show_nat n) = CHR ''0'')"
    using show_nat_no_leading_zero [of n] by blast
  have exact: "exact_int (int n) 0 = Some (int n)" by (simp add: exact_int_def)
  note plain = delimited_no_fraction [OF assms(1)]
  show ?thesis
    unfolding parse_number_def Let_def
    using takeWhile_digits [OF show_nat_digits assms(1), of n] lead assms(2)
    by (simp add: plain show_nat_nonempty digits_val_show_nat digits_val_Nil exact)
qed

lemma parse_number_show_int:
  assumes "delimited rest"
  shows "parse_number (show_int (sint w) @ rest) = Inr (JNum w, rest)"
proof -
  have lo: "- (2 ^ 53) \<le> sint w" using sint_ge [of w] by simp
  have hi: "sint w < 2 ^ 53" using sint_lt [of w] by simp
  have again: "word_of_int (sint w) = w" by simp
  show ?thesis
  proof (cases "sint w < 0")
    case True
    with lo have "int (nat (- sint w)) \<le> 2 ^ 53" by simp
    from parse_number_minus_show_nat [OF assms this] True
    have "parse_number (show_int (sint w) @ rest) = Inr (JNum (word_of_int (sint w)), rest)"
      by (simp add: show_int_def)
    then show ?thesis by (simp only: again)
  next
    case False
    with hi have "int (nat (sint w)) < 2 ^ 53" by simp
    from parse_number_show_nat [OF assms this] False
    have "parse_number (show_int (sint w) @ rest) = Inr (JNum (word_of_int (sint w)), rest)"
      by (simp add: show_int_def)
    then show ?thesis by (simp only: again)
  qed
qed

lemma unicode_escape_control:
  assumes "(of_char c :: nat) < 32"
  shows "unicode_escape (CHR ''0'') (CHR ''0'') (digit_char ((of_char c :: nat) div 16))
           (digit_char ((of_char c :: nat) mod 16)) = Inr c"
proof -
  have z: "hex_val (CHR ''0'') = Some 0" by (simp add: hex_val_def)
  have hi: "hex_val (digit_char ((of_char c :: nat) div 16)) = Some ((of_char c :: nat) div 16)"
    using assms by (intro hex_val_digit_char) simp
  have lo: "hex_val (digit_char ((of_char c :: nat) mod 16)) = Some ((of_char c :: nat) mod 16)"
    by (intro hex_val_digit_char) simp
  have "(of_char c :: nat) div 16 * 16 + (of_char c :: nat) mod 16 = of_char c" by simp
  moreover have "(of_char c :: nat) < 256" using assms by simp
  ultimately show ?thesis
    by (simp add: unicode_escape_def z hi lo)
qed

lemma parse_quote_char:
  "parse_string_body (quote_char c @ tail)
     = map_sum id (\<lambda>(s, r). (c # s, r)) (parse_string_body tail)"
proof -
  have bs: "backslash \<noteq> dquote" "CHR ''u'' \<noteq> dquote" by (simp_all add: backslash_def dquote_def)
  consider "c = dquote" | "c = backslash" | "c = CHR 0x08" | "c = CHR 0x0C" | "c = CHR 0x0A"
    | "c = CHR 0x0D" | "c = CHR 0x09"
    | "c \<notin> {dquote, backslash, CHR 0x08, CHR 0x0C, CHR 0x0A, CHR 0x0D, CHR 0x09}" "(of_char c :: nat) < 32"
    | "c \<notin> {dquote, backslash, CHR 0x08, CHR 0x0C, CHR 0x0A, CHR 0x0D, CHR 0x09}" "\<not> (of_char c :: nat) < 32"
    by blast
  then show ?thesis
  proof cases
    case 8
    then show ?thesis
      using unicode_escape_control [of c]
      by (simp add: quote_char_def) (simp add: backslash_def dquote_def)
  next
    case 9
    then show ?thesis by (simp add: quote_char_def)
  qed (simp_all add: quote_char_def unescape_def, simp_all add: backslash_def dquote_def)
qed

lemma parse_string_body_quoted:
  "parse_string_body (concat (map quote_char s) @ dquote # rest) = Inr (s, rest)"
  by (induction s) (simp_all add: parse_quote_char)

lemma show_int_starts: "starts_value (show_int i)"
proof -
  obtain c cs where c: "show_nat (nat \<bar>i\<bar>) = c # cs"
    using show_nat_nonempty [of "nat \<bar>i\<bar>"] by (cases "show_nat (nat \<bar>i\<bar>)") auto
  have "is_digit c" using show_nat_digits [of "nat \<bar>i\<bar>"] c by simp
  then have "\<not> is_json_ws c \<and> c \<notin> set '',]}:''" by (auto simp: is_digit_def is_json_ws_def)
  with c show ?thesis
    by (cases "i < 0") (simp_all add: show_int_def starts_value_def is_json_ws_def)
qed

lemma stringify_starts:
  assumes "v \<noteq> JUndefined"
  obtains s where "JSON_stringify v = Some s" and "starts_value s"
  using assms show_int_starts
  by (cases v) (auto simp: starts_value_def is_json_ws_def quote_def dquote_def)

lemma not_index_key: "k \<noteq> [] \<Longrightarrow> \<not> is_digit (hd k) \<Longrightarrow> \<not> is_index_key k"
  by (cases k) (simp_all add: is_index_key_def)

lemma keys_ordered_prefix: "keys_ordered (ks @ ks') \<Longrightarrow> keys_ordered ks"
proof (induction ks rule: keys_ordered.induct)
  case (3 k k' ks)
  then show ?case by (simp split: if_splits)
qed simp_all

lemma keys_ordered_before_index:
  assumes "keys_ordered (ks @ [k])" and "is_index_key k"
  shows "\<forall>k' \<in> set ks. is_index_key k' \<and> digits_val k' < digits_val k"
  using assms
proof (induction ks)
  case Nil
  then show ?case by simp
next
  case (Cons a ks)
  show ?case
  proof (cases ks)
    case Nil
    with Cons.prems show ?thesis by simp
  next
    case (Cons b ks')
    with Cons.prems have tail: "keys_ordered (ks @ [k])" by simp
    from Cons.IH [OF tail Cons.prems(2)]
    have all: "\<forall>k' \<in> set ks. is_index_key k' \<and> digits_val k' < digits_val k" .
    with Cons have b: "is_index_key b" "digits_val b < digits_val k" by simp_all
    with Cons.prems(1) Cons have "is_index_key a" "digits_val a < digits_val b" by simp_all
    with b all show ?thesis by simp
  qed
qed

text \<open>Assigning the properties of an object one by one, in their order, rebuilds it.\<close>

lemma foldl_obj_set_ordered:
  assumes "distinct (map fst (acc @ ps))" and "keys_ordered (map fst (acc @ ps))"
  shows "foldl (\<lambda>acc (k, v). obj_set acc k v) acc ps = acc @ ps"
  using assms
proof (induction ps arbitrary: acc)
  case Nil
  then show ?case by simp
next
  case (Cons p ps)
  obtain k v where p: "p = (k, v)" by (cases p)
  from Cons.prems p have new: "k \<notin> fst ` set acc" by auto
  from Cons.prems(2) p have "keys_ordered ((map fst acc @ [k]) @ map fst ps)" by simp
  then have ord: "keys_ordered (map fst acc @ [k])" by (rule keys_ordered_prefix)
  have "obj_set acc k v = acc @ [(k, v)]"
  proof (cases "is_index_key k")
    case False
    with new show ?thesis by (simp add: obj_set_def)
  next
    case True
    from keys_ordered_before_index [OF ord True]
    have "\<forall>q \<in> set acc. (\<lambda>(k', v'). is_index_key k' \<and> digits_val k' < digits_val k) q"
      by auto
    then have "takeWhile (\<lambda>(k', v'). is_index_key k' \<and> digits_val k' < digits_val k) acc = acc"
      and "dropWhile (\<lambda>(k', v'). is_index_key k' \<and> digits_val k' < digits_val k) acc = []"
      by (simp_all add: takeWhile_eq_all_conv)
    with new True show ?thesis by (simp add: obj_set_def)
  qed
  moreover from Cons.prems p have "distinct (map fst ((acc @ [(k, v)]) @ ps))"
    and "keys_ordered (map fst ((acc @ [(k, v)]) @ ps))" by simp_all
  ultimately show ?case using Cons.IH [of "acc @ [(k, v)]"] p by simp
qed

lemma clean_props_distinct: "clean_props ps \<Longrightarrow> distinct (map fst ps)"
proof (induction ps)
  case Nil
  then show ?case by simp
next
  case (Cons p ps)
  obtain k v where p: "p = (k, v)" by (cases p)
  with Cons.prems have "k \<notin> set (map fst ps)" and "clean_props ps" by simp_all
  with Cons.IH p show ?case by simp
qed

lemma obj_of_members_clean: "json_clean (JObj ps) \<Longrightarrow> obj_of_members ps = ps"
  using foldl_obj_set_ordered [of "[]" ps] by (simp add: obj_of_members_def clean_props_distinct)

lemma skip_ws_char: "\<not> is_json_ws c \<Longrightarrow> skip_ws (c # rest) = c # rest"
  by (simp add: skip_ws_def)


lemma stringify_props_nonempty:
  assumes "clean_props ps" and "ps \<noteq> []"
  shows "stringify_props ps \<noteq> []"
proof -
  from assms obtain k v ps' where ps: "ps = (k, v) # ps'" and "json_clean v"
    by (cases ps) auto
  then have "v \<noteq> JUndefined" by auto
  then obtain s where "JSON_stringify v = Some s" by (rule stringify_starts)
  with ps show ?thesis by simp
qed

lemma join_Cons: "join sep (x # xs) = (if xs = [] then x else x @ sep @ join sep xs)"
  by (cases xs) simp_all

text \<open>The three parsers invert the three printers, given fuel for the length of the text.\<close>

lemma parse_stringify:
  "json_clean v \<Longrightarrow>
     (\<exists>s. JSON_stringify v = Some s \<and>
        (\<forall>n rest. length s \<le> n \<longrightarrow> delimited rest \<longrightarrow> parse_value n (s @ rest) = Inr (v, rest)))"
  "clean_elems vs \<Longrightarrow> vs \<noteq> [] \<Longrightarrow>
     (\<forall>n rest. length (join '','' (stringify_elems vs)) < n \<longrightarrow>
        parse_elems n (join '','' (stringify_elems vs) @ CHR '']'' # rest) = Inr (vs, rest))"
  "clean_props ps \<Longrightarrow> ps \<noteq> [] \<Longrightarrow>
     (\<forall>n rest. length (join '','' (stringify_props ps)) < n \<longrightarrow>
        parse_members n (join '','' (stringify_props ps) @ CHR ''}'' # rest) = Inr (ps, rest))"
proof (induction v and vs and ps rule: json_clean_clean_elems_clean_props.induct)
  case 1
  then show ?case by simp
next
  case 2
  have "parse_value n (''null'' @ rest) = Inr (JNull, rest)" if "length ''null'' \<le> n" for n rest
  proof -
    from that obtain m where "n = Suc m" by (cases n) auto
    then show ?thesis by (simp add: skip_ws_def is_json_ws_def dquote_def)
  qed
  then show ?case by simp
next
  case (3 b)
  have "parse_value n ((if b then ''true'' else ''false'') @ rest) = Inr (JBool b, rest)"
    if "length (if b then ''true'' else ''false'') \<le> n" for n rest
  proof -
    from that obtain m where "n = Suc m" by (cases n) (auto split: if_splits)
    then show ?thesis by (simp add: skip_ws_def is_json_ws_def dquote_def)
  qed
  then show ?case by simp
next
  case (4 w)
  have "parse_value n (show_int (sint w) @ rest) = Inr (JNum w, rest)"
    if "length (show_int (sint w)) \<le> n" and "delimited rest" for n rest
  proof -
    have "\<exists>c cs. show_int (sint w) = c # cs \<and> (c = CHR ''-'' \<or> is_digit c)"
    proof (cases "sint w < 0")
      case True
      then show ?thesis by (simp add: show_int_def)
    next
      case False
      then show ?thesis
        using show_nat_nonempty [of "nat (sint w)"] show_nat_digits [of "nat (sint w)"]
        by (cases "show_nat (nat (sint w))") (simp_all add: show_int_def)
    qed
    then obtain c cs where c: "show_int (sint w) = c # cs" and cc: "c = CHR ''-'' \<or> is_digit c"
      by blast
    from that c obtain m where "n = Suc m" by (cases n) auto
    moreover from cc have "\<not> is_json_ws c" "c \<noteq> CHR ''[''" "c \<noteq> CHR ''{''" "c \<noteq> dquote"
      "c \<noteq> CHR ''n''" "c \<noteq> CHR ''t''" "c \<noteq> CHR ''f''"
      by (auto simp: is_digit_def is_json_ws_def dquote_def)
    ultimately show ?thesis
      using parse_number_show_int [OF that(2), of w] c
      by (simp add: skip_ws_char)
  qed
  then show ?case by simp
next
  case (5 s)
  have "parse_value n (quote s @ rest) = Inr (JStr s, rest)" if "length (quote s) \<le> n" for n rest
  proof -
    from that obtain m where "n = Suc m" by (cases n) (auto simp: quote_def)
    then show ?thesis
      by (simp add: quote_def skip_ws_def is_json_ws_def parse_string_body_quoted)
        (simp add: dquote_def)
  qed
  then show ?case by simp
next
  case (6 vs)
  show ?case
  proof (cases "vs = []")
    case True
    have "parse_value n (''[]'' @ rest) = Inr (JArr [], rest)" if "length ''[]'' \<le> n" for n rest
    proof -
      from that obtain m where "n = Suc m" by (cases n) auto
      then show ?thesis by (simp add: skip_ws_def is_json_ws_def)
    qed
    with True show ?thesis by simp
  next
    case False
    then obtain v vs' where vs: "vs = v # vs'" by (cases vs) auto
    from 6 vs have "v \<noteq> JUndefined" by auto
    then obtain s where s: "JSON_stringify v = Some s" "starts_value s" by (rule stringify_starts)
    let ?J = "join '','' (stringify_elems vs)"
    from s vs have "\<exists>c cs. ?J = c # cs \<and> \<not> is_json_ws c \<and> c \<noteq> CHR '']''"
      by (cases s) (auto simp: join_Cons starts_value_def)
    then obtain c cs where J: "?J = c # cs" "\<not> is_json_ws c" "c \<noteq> CHR '']''"
      by blast
    have "parse_value n ((''['' @ ?J @ '']'') @ rest) = Inr (JArr vs, rest)"
      if "length (''['' @ ?J @ '']'') \<le> n" for n rest
    proof -
      from that obtain m where n: "n = Suc m" and m: "length ?J < m" by (cases n) auto
      from 6 False m have "parse_elems m (?J @ CHR '']'' # rest) = Inr (vs, rest)" by simp
      with n J show ?thesis
        by (simp add: skip_ws_def is_json_ws_def)
    qed
    then show ?thesis by simp
  qed
next
  case (7 ps)
  show ?case
  proof (cases "ps = []")
    case True
    have "parse_value n (''{}'' @ rest) = Inr (JObj [], rest)" if "length ''{}'' \<le> n" for n rest
    proof -
      from that obtain m where "n = Suc m" by (cases n) auto
      then show ?thesis by (simp add: skip_ws_def is_json_ws_def)
    qed
    with True show ?thesis by simp
  next
    case False
    then obtain k v ps' where ps: "ps = (k, v) # ps'" by (cases ps) auto
    from 7 ps have "v \<noteq> JUndefined" by auto
    then obtain s where s: "JSON_stringify v = Some s" by (rule stringify_starts)
    let ?J = "join '','' (stringify_props ps)"
    from s ps have "\<exists>cs. ?J = dquote # cs"
      by (auto simp: join_Cons quote_def)
    then obtain cs where J: "?J = dquote # cs"
      by blast
    have "parse_value n ((''{'' @ ?J @ ''}'') @ rest) = Inr (JObj ps, rest)"
      if "length (''{'' @ ?J @ ''}'') \<le> n" for n rest
    proof -
      from that obtain m where n: "n = Suc m" and m: "length ?J < m" by (cases n) auto
      from 7 False m have "parse_members m (?J @ CHR ''}'' # rest) = Inr (ps, rest)" by simp
      with n J 7 show ?thesis
        by (simp add: skip_ws_def is_json_ws_def obj_of_members_clean) (simp add: dquote_def)
    qed
    then show ?thesis by simp
  qed
next
  case 8
  then show ?case by simp
next
  case (9 v vs)
  from "9.prems" have cv: "json_clean v" and cvs: "clean_elems vs" by simp_all
  from "9.IH"(1) [OF cv] obtain s where s: "JSON_stringify v = Some s"
    and ps: "\<And>n rest. length s \<le> n \<Longrightarrow> delimited rest \<Longrightarrow> parse_value n (s @ rest) = Inr (v, rest)"
    by blast
  show ?case
  proof (intro allI impI)
    fix n rest
    assume len: "length (join '','' (stringify_elems (v # vs))) < n"
    then obtain m where n: "n = Suc m" by (cases n) auto
    show "parse_elems n (join '','' (stringify_elems (v # vs)) @ CHR '']'' # rest) = Inr (v # vs, rest)"
    proof (cases "vs = []")
      case True
      with len n s have "length s \<le> m" by simp
      moreover have "delimited (CHR '']'' # rest)" by (simp add: delimited_def)
      ultimately have "parse_value m (s @ CHR '']'' # rest) = Inr (v, CHR '']'' # rest)" by (rule ps)
      with True n s show ?thesis by (simp add: skip_ws_def is_json_ws_def)
    next
      case False
      let ?J = "join '','' (stringify_elems vs)"
      from False s have J: "join '','' (stringify_elems (v # vs)) = s @ '','' @ ?J"
        by (cases vs) simp_all
      with len n have "length s \<le> m" and lj: "length ?J < m" by simp_all
      moreover have "delimited (CHR '','' # ?J @ CHR '']'' # rest)" by (simp add: delimited_def)
      ultimately have "parse_value m (s @ CHR '','' # ?J @ CHR '']'' # rest)
          = Inr (v, CHR '','' # ?J @ CHR '']'' # rest)" by (intro ps)
      moreover from "9.IH"(2) [OF cvs False] lj
      have "parse_elems m (?J @ CHR '']'' # rest) = Inr (vs, rest)" by blast
      ultimately show ?thesis using n J by (simp add: skip_ws_def is_json_ws_def)
    qed
  qed
next
  case 10
  then show ?case by simp
next
  case (11 k v ps)
  from "11.prems" have cv: "json_clean v" and cps: "clean_props ps" by simp_all
  from "11.IH"(1) [OF cv] obtain s where s: "JSON_stringify v = Some s"
    and pv: "\<And>n rest. length s \<le> n \<Longrightarrow> delimited rest \<Longrightarrow> parse_value n (s @ rest) = Inr (v, rest)"
    by blast
  let ?body = "concat (map quote_char k)"
  have key: "parse_string_body (?body @ dquote # r) = Inr (k, r)" for r
    by (rule parse_string_body_quoted)
  show ?case
  proof (intro allI impI)
    fix n rest
    assume len: "length (join '','' (stringify_props ((k, v) # ps))) < n"
    then obtain m where n: "n = Suc m" by (cases n) auto
    show "parse_members n (join '','' (stringify_props ((k, v) # ps)) @ CHR ''}'' # rest)
        = Inr ((k, v) # ps, rest)"
    proof (cases "ps = []")
      case True
      with len n s have "length s \<le> m" by simp
      moreover have "delimited (CHR ''}'' # rest)" by (simp add: delimited_def)
      ultimately have "parse_value m (s @ CHR ''}'' # rest) = Inr (v, CHR ''}'' # rest)" by (rule pv)
      with True n s key [of "CHR '':'' # s @ CHR ''}'' # rest"] show ?thesis
        by (simp add: quote_def skip_ws_def is_json_ws_def) (simp add: dquote_def)
    next
      case False
      let ?J = "join '','' (stringify_props ps)"
      from False s stringify_props_nonempty [OF cps False]
      have J: "join '','' (stringify_props ((k, v) # ps))
          = (quote k @ '':'' @ s) @ '','' @ ?J"
        by (simp add: join_Cons)
      with len n have "length s \<le> m" and lj: "length ?J < m" by simp_all
      moreover have "delimited (CHR '','' # ?J @ CHR ''}'' # rest)" by (simp add: delimited_def)
      ultimately have "parse_value m (s @ CHR '','' # ?J @ CHR ''}'' # rest)
          = Inr (v, CHR '','' # ?J @ CHR ''}'' # rest)" by (intro pv)
      moreover from "11.IH"(2) cps False lj
      have "parse_members m (?J @ CHR ''}'' # rest) = Inr (ps, rest)" by blast
      ultimately show ?thesis
        using n J key [of "CHR '':'' # s @ CHR '','' # ?J @ CHR ''}'' # rest"]
        by (simp add: quote_def skip_ws_def is_json_ws_def) (simp add: dquote_def)
    qed
  qed
qed

text \<open>A clean value is printed, and its text parses back to it.\<close>

lemma JSON_round_trip:
  assumes "json_clean v"
  obtains s where "JSON_stringify v = Some s" and "JSON_parse s = Inr v"
proof -
  from parse_stringify(1) [OF assms] obtain s where s: "JSON_stringify v = Some s"
    and p: "\<And>n rest. length s \<le> n \<Longrightarrow> delimited rest \<Longrightarrow> parse_value n (s @ rest) = Inr (v, rest)"
    by blast
  have "parse_value (Suc (length s)) (s @ []) = Inr (v, [])"
    by (rule p) (simp_all add: delimited_def)
  then have "JSON_parse s = Inr v" by (simp add: JSON_parse_def skip_ws_def)
  with s show ?thesis by (rule that)
qed


section \<open>Facts about the upload batch\<close>

lemma upload_task_Inr:
  "upload_task post rid file
    = Inr (case upload_try post rid file of Inl e \<Rightarrow> None | Inr u \<Rightarrow> Some u)"
  by (simp add: upload_task_def split: sum.splits)

lemma successful_concat:
  "map the (filter (\<lambda>result. result \<noteq> None) (map f xs))
    = concat (map (\<lambda>x. case f x of None \<Rightarrow> [] | Some u \<Rightarrow> [u]) xs)"
  by (induction xs) (auto split: option.splits)

text \<open>
  Once every task has completed, in whatever order, \<^verbatim>\<open>onDrop\<close> hands over the captured
  list followed by the entries of the tasks that did not throw, by index.
\<close>

lemma onDrop_value:
  assumes "{..<length acceptedFiles} \<subseteq> set order"
  shows "onDrop net rand order uploadedFiles acceptedFiles
    = Some (Inr (uploadedFiles @
        concat (map (\<lambda>(i, file). case upload_try (net i) (rand i) file of
                                     Inl e \<Rightarrow> [] | Inr u \<Rightarrow> [u])
                 (enumerate 0 acceptedFiles))))"
proof -
  let ?res = "\<lambda>(i, file). case upload_try (net i) (rand i) file of Inl e \<Rightarrow> None | Inr u \<Rightarrow> Some u"
  have tasks: "map (\<lambda>(i, file). upload_task (net i) (rand i) file) (enumerate 0 acceptedFiles)
      = map Inr (map ?res (enumerate 0 acceptedFiles))"
    by (simp add: upload_task_Inr split_def)
  have "{..<length (map ?res (enumerate 0 acceptedFiles))} \<subseteq> set order"
    using assms by simp
  from Promise_all_fulfilled [OF this]
  have "onDrop net rand order uploadedFiles acceptedFiles
      = Some (Inr (uploadedFiles @
          map the (filter (\<lambda>result. result \<noteq> None) (map ?res (enumerate 0 acceptedFiles)))))"
    by (simp add: onDrop_def tasks Let_def)
  also have "map the (filter (\<lambda>result. result \<noteq> None) (map ?res (enumerate 0 acceptedFiles)))
      = concat (map (\<lambda>x. case ?res x of None \<Rightarrow> [] | Some u \<Rightarrow> [u]) (enumerate 0 acceptedFiles))"
    by (rule successful_concat)
  also have "(\<lambda>x. case ?res x of None \<Rightarrow> [] | Some u \<Rightarrow> [u])
      = (\<lambda>(i, file). case upload_try (net i) (rand i) file of Inl e \<Rightarrow> [] | Inr u \<Rightarrow> [u])"
    by (auto split: sum.splits)
  finally show ?thesis .
qed

lemma upload_try_file:
  assumes "upload_try post rid file = Inr u"
  shows "uf_file u = file \<and> uf_id u = rid \<and> uf_name u = file_name file
         \<and> uf_size u = file_size file \<and> uf_type u = file_type file"
  using assms by (auto simp: upload_try_def Let_def split: if_splits sum.splits)

lemma new_entries_files:
  "map uf_file (concat (map (\<lambda>(i, file). case upload_try (net i) (rand i) file of
                                     Inl e \<Rightarrow> [] | Inr u \<Rightarrow> [u]) ps))
    = map snd (filter (\<lambda>(i, file). \<not> isl (upload_try (net i) (rand i) file)) ps)"
proof (induction ps)
  case Nil
  then show ?case by simp
next
  case (Cons p ps)
  obtain i f where p: "p = (i, f)" by (cases p)
  show ?case
  proof (cases "upload_try (net i) (rand i) f")
    case (Inl e)
    with Cons p show ?thesis by simp
  next
    case (Inr u)
    with upload_try_file [OF Inr] Cons p show ?thesis by simp
  qed
qed

lemma upload_try_unsupported:
  assumes "file_type file \<noteq> ''application/pdf''" and "file_type file \<noteq> ''text/csv''"
    and "\<not> str_includes (file_type file) ''excel''"
  shows "upload_try post rid file = Inl (Error ''Unsupported file type'')"
  using assms by (simp add: upload_try_def Let_def)

lemma upload_try_rejected:
  assumes "\<forall>request. isl (post request)"
  shows "isl (upload_try post rid file)"
proof -
  from assms have "isl (uploadPDF post file)" and "isl (uploadCSV post file)"
    by (simp_all add: uploadPDF_def uploadCSV_def)
  then show ?thesis
    by (auto simp: upload_try_def Let_def isl_def)
qed

section \<open>Facts about the exchange\<close>

lemma handleSendMessage_messages:
  assumes "trim message \<noteq> []"
  shows "messages (fst (handleSendMessage post now now' selectedPersona uploadedFiles st message))
    = messages st @
      [\<lparr>role = User, content = JStr message, timestamp = now,
        chartData = JUndefined, toolType = JUndefined, statistics = JUndefined,
        chartMetadata = JUndefined\<rparr>,
       (case merge_response now'
               (post (chat_request selectedPersona uploadedFiles (messages st) message)) of
          Inr assistantMessage \<Rightarrow> assistantMessage
        | Inl error \<Rightarrow> errorMessage now')]"
  using assms by (simp add: handleSendMessage_def Let_def split: sum.splits)

lemma merge_response_role: "merge_response t out = Inr m \<Longrightarrow> role m = Assistant"
  by (auto simp: merge_response_def split: sum.splits)

lemma reply_role:
  "role (case merge_response t out of Inr m \<Rightarrow> m | Inl e \<Rightarrow> errorMessage t) = Assistant"
  by (auto simp: errorMessage_def split: sum.splits dest: merge_response_role)

lemma merge_response_failed:
  assumes "(\<exists>e. out = Inl e) \<or> (\<exists>r. out = Inr r \<and> nullish r)"
  shows "\<exists>e. merge_response t out = Inl e"
  using assms by (auto simp: merge_response_def get_prop_def)

lemma merge_response_resolved:
  assumes "\<not> nullish r"
  shows "merge_response t (Inr r) =
    Inr \<lparr>role = Assistant, content = read_prop r ''message'', timestamp = t,
         chartData = opt_prop (read_prop r ''tool_result'') ''chart_data'',
         toolType = read_prop r ''tool_type'',
         statistics = opt_prop (read_prop r ''tool_result'') ''data_summary'',
         chartMetadata = opt_prop (read_prop r ''tool_result'') ''chart_metadata''\<rparr>"
  using assms by (simp add: merge_response_def get_prop_def)

text \<open>The file context record of a tabular entry as \<^verbatim>\<open>onDrop\<close> builds it.\<close>

lemma file_context_record_csv:
  assumes tabular: "uf_type file = ''text/csv'' \<or> str_includes (uf_type file) ''excel''"
    and response: "uploadResponse file
      = JObj [(''data'', JArr rows), (''columns'', JArr columns),
              (''metadata'', JObj [(''type'', JStr ''csv'')])]"
  shows "file_context_record file
      = JObj [(''name'', JStr (uf_name file)), (''type'', JStr (uf_type file)),
              (''content'', stringify_val (JArr rows)),
              (''metadata'', JObj [(''columns'', JArr columns), (''type'', JStr ''csv'')])]"
  using tabular
  by (auto simp: file_context_record_def response opt_prop_def js_or_def obj_spread_def obj_set_def
      is_index_key_def is_digit_def)

section \<open>Facts about the chart export\<close>

lemma strip_data_prefix_image:
  assumes "w \<noteq> []" and "\<forall>c \<in> set w. is_word_char c"
  shows "strip_data_prefix (''data:image/'' @ w @ '';base64,'' @ d) = d"
proof -
  have semi: "\<not> is_word_char (CHR '';'')" by (simp add: is_word_char_def)
  have tw: "takeWhile is_word_char (w @ '';base64,'' @ d) = w"
    using assms(2) semi by (simp add: takeWhile_append2)
  have dw: "dropWhile is_word_char (w @ '';base64,'' @ d) = '';base64,'' @ d"
    using assms(2) semi by (simp add: dropWhile_append2)
  have pre: "prefix ''data:image/'' (''data:image/'' @ w @ '';base64,'' @ d)"
    by simp
  have dr: "drop (length ''data:image/'') (''data:image/'' @ w @ '';base64,'' @ d)
      = w @ '';base64,'' @ d"
    by simp
  show ?thesis
    unfolding strip_data_prefix_def Let_def
    by (simp only: pre dr tw dw if_True) (simp add: assms(1))
qed

lemma strip_data_prefix_other:
  assumes "\<not> prefix ''data:image/'' chart"
  shows "strip_data_prefix chart = chart"
  using assms by (simp add: strip_data_prefix_def)

text \<open>Chart data that the replacement changes have the whole form of the pattern.\<close>

lemma strip_data_prefix_changed:
  assumes "strip_data_prefix chart \<noteq> chart"
  shows "\<exists>w d. w \<noteq> [] \<and> (\<forall>c \<in> set w. is_word_char c)
           \<and> chart = ''data:image/'' @ w @ '';base64,'' @ d"
proof -
  from assms have pre: "prefix ''data:image/'' chart"
    by (auto simp: strip_data_prefix_def split: if_splits)
  then obtain rest where chart: "chart = ''data:image/'' @ rest" by (auto simp: prefix_def)
  have dr: "drop (length ''data:image/'') chart = rest" by (simp add: chart)
  from assms pre have w: "takeWhile is_word_char rest \<noteq> []"
    and semi: "prefix '';base64,'' (dropWhile is_word_char rest)"
    unfolding strip_data_prefix_def Let_def dr by (auto split: if_splits)
  from semi obtain d where after: "dropWhile is_word_char rest = '';base64,'' @ d"
    by (auto simp: prefix_def)
  have "takeWhile is_word_char rest @ dropWhile is_word_char rest = rest"
    by (rule takeWhile_dropWhile_id)
  then have split: "takeWhile is_word_char rest @ '';base64,'' @ d = rest"
    by (simp only: after)
  have "chart = ''data:image/'' @ (takeWhile is_word_char rest @ '';base64,'' @ d)"
    by (simp only: split chart)
  moreover have "\<forall>c \<in> set (takeWhile is_word_char rest). is_word_char c"
    by (auto dest: set_takeWhileD)
  ultimately show ?thesis using w by blast
qed

lemma export_filename_nth:
  assumes "i < length tool"
  shows "export_filename tool ! i = (if tool ! i = CHR ''_'' then CHR ''-'' else tool ! i)"
  using assms by (simp add: export_filename_def replace_underscores_def nth_append)

section \<open>The claims\<close>

text \<open>
  C1. A send with a message that is not blank appends exactly two messages to the store:
  the user's and then one assistant message, whatever the backend does (it may reject,
  or resolve with any value). So exactly one of the appended messages has the assistant
  role.
\<close>

theorem exactly_one_assistant_message:
  assumes "\<exists>c \<in> set message. \<not> is_ws c"
  shows "(\<exists>u a. messages (fst (handleSendMessage post now now' selectedPersona uploadedFiles st message))
              = messages st @ [u, a]
            \<and> role u = User \<and> role a = Assistant)
         \<and> length (filter (\<lambda>m. role m = Assistant)
             (drop (length (messages st))
               (messages (fst (handleSendMessage post now now' selectedPersona uploadedFiles st message)))))
           = 1"
proof -
  from assms have "trim message \<noteq> []" by (simp add: trim_Nil_iff)
  from handleSendMessage_messages [OF this] show ?thesis
    by (simp add: reply_role)
qed

theorem exactly_one_assistant_message_witness:
  "(\<exists>c \<in> set ''Create a Pareto chart''. \<not> is_ws c)
   \<and> length (filter (\<lambda>m. role m = Assistant)
       (drop (length (messages empty_chat))
         (messages (fst (handleSendMessage (\<lambda>request. Inr (JObj [(''message'', JStr ''Done'')]))
            ''t0'' ''t1'' ''Novice Guide'' [] empty_chat ''Create a Pareto chart'')))))
     = 1"
proof -
  have h: "\<exists>c \<in> set ''Create a Pareto chart''. \<not> is_ws c" by (simp add: is_ws_def)
  from exactly_one_assistant_message [OF h] h show ?thesis by blast
qed

text \<open>
  C2. Once every upload of a batch has completed, \<^verbatim>\<open>onDrop\<close> ends normally and hands
  over the captured list followed by one entry for each file whose task did not throw and
  nothing for a file whose task threw: each file decides for itself alone. A file of an
  unsupported type throws, and so does every file when the backend rejects the request.
\<close>

theorem batch_failures_are_isolated:
  assumes "{..<length acceptedFiles} \<subseteq> set order"
  shows "onDrop net rand order uploadedFiles acceptedFiles
           = Some (Inr (uploadedFiles @
               concat (map (\<lambda>(i, file). case upload_try (net i) (rand i) file of
                                            Inl e \<Rightarrow> [] | Inr u \<Rightarrow> [u])
                        (enumerate 0 acceptedFiles))))
         \<and> (file_type file \<noteq> ''application/pdf'' \<and> file_type file \<noteq> ''text/csv''
              \<and> \<not> str_includes (file_type file) ''excel''
              \<longrightarrow> upload_try post rid file = Inl (Error ''Unsupported file type''))
         \<and> ((\<forall>request. isl (post request)) \<longrightarrow> isl (upload_try post rid file))"
  using onDrop_value [OF assms] upload_try_unsupported upload_try_rejected
  by blast

theorem batch_failures_are_isolated_witness:
  "onDrop (\<lambda>i. parsing_backend) sample_ids [2, 0, 1] [sample_entry ''a'' ''x'']
      [txt_file, pdf_file, csv_file]
    = Some (Inr [sample_entry ''a'' ''x'', pdf_entry 1, csv_entry 2])
   \<and> upload_try parsing_backend (sample_ids 0) txt_file = Inl (Error ''Unsupported file type'')
   \<and> isl (upload_try (\<lambda>request. Inl (AxiosError ''Network Error'')) (sample_ids 1) pdf_file)"
proof -
  have complete: "{..<length [txt_file, pdf_file, csv_file]} \<subseteq> set [2, 0, 1]"
    by (auto simp: less_Suc_eq numeral_3_eq_3)
  have unsupported: "file_type txt_file \<noteq> ''application/pdf'' \<and> file_type txt_file \<noteq> ''text/csv''
      \<and> \<not> str_includes (file_type txt_file) ''excel''"
    by (simp add: txt_file_def)
  have rejecting: "\<forall>request. isl ((\<lambda>request. Inl (AxiosError ''Network Error'')) request :: js_exn + jsval)"
    by simp
  note fact = batch_failures_are_isolated [OF complete, of "\<lambda>i. parsing_backend" sample_ids
      "[sample_entry ''a'' ''x'']"]
  from fact [of txt_file parsing_backend "sample_ids 0"] unsupported
  have a: "upload_try parsing_backend (sample_ids 0) txt_file = Inl (Error ''Unsupported file type'')"
    by blast
  from fact [of pdf_file "\<lambda>request. Inl (AxiosError ''Network Error'')" "sample_ids 1"] rejecting
  have b: "isl (upload_try (\<lambda>request. Inl (AxiosError ''Network Error'')) (sample_ids 1) pdf_file)"
    by blast
  from fact [of txt_file parsing_backend "sample_ids 0"]
  have "onDrop (\<lambda>i. parsing_backend) sample_ids [2, 0, 1] [sample_entry ''a'' ''x'']
      [txt_file, pdf_file, csv_file]
    = Some (Inr ([sample_entry ''a'' ''x''] @
               concat (map (\<lambda>(i, file). case upload_try parsing_backend (sample_ids i) file of
                                            Inl e \<Rightarrow> [] | Inr u \<Rightarrow> [u])
                        (enumerate 0 [txt_file, pdf_file, csv_file]))))"
    by blast
  also have "\<dots> = Some (Inr [sample_entry ''a'' ''x'', pdf_entry 1, csv_entry 2])"
    by (simp add: sample_eval)
  finally show ?thesis using a b by simp
qed

text \<open>
  C3. Once every upload of a batch has completed, the list handed over is the captured
  list, unchanged, followed by the new entries; the files of the new entries are the
  accepted files whose task did not throw, in the order of the input; and the result is
  the same for every order of completion.
\<close>

theorem upload_order_preserved:
  assumes "{..<length acceptedFiles} \<subseteq> set order"
  shows "\<exists>new. onDrop net rand order uploadedFiles acceptedFiles = Some (Inr (uploadedFiles @ new))
           \<and> map uf_file new
               = map snd (filter (\<lambda>(i, file). \<not> isl (upload_try (net i) (rand i) file))
                            (enumerate 0 acceptedFiles))
           \<and> onDrop net rand order uploadedFiles acceptedFiles
               = onDrop net rand [0..<length acceptedFiles] uploadedFiles acceptedFiles"
proof -
  have "{..<length acceptedFiles} \<subseteq> set [0..<length acceptedFiles]" by auto
  from onDrop_value [OF this] onDrop_value [OF assms] new_entries_files
  show ?thesis by simp
qed

theorem upload_order_preserved_witness:
  "onDrop (\<lambda>i. parsing_backend) sample_ids [2, 1, 0] [sample_entry ''a'' ''x'']
      [csv_file, txt_file, pdf_file]
    = Some (Inr [sample_entry ''a'' ''x'', csv_entry 0, pdf_entry 2])
   \<and> onDrop (\<lambda>i. parsing_backend) sample_ids [2, 1, 0] [sample_entry ''a'' ''x'']
      [csv_file, txt_file, pdf_file]
    = onDrop (\<lambda>i. parsing_backend) sample_ids [0, 1, 2] [sample_entry ''a'' ''x'']
      [csv_file, txt_file, pdf_file]"
proof -
  have complete: "{..<length [csv_file, txt_file, pdf_file]} \<subseteq> set [2, 1, 0]"
    by (auto simp: less_Suc_eq numeral_3_eq_3)
  have upt: "[0..<length [csv_file, txt_file, pdf_file]] = [0, 1, 2]"
    by (simp add: upt_rec)
  from upload_order_preserved [OF complete, of "\<lambda>i. parsing_backend" sample_ids
      "[sample_entry ''a'' ''x'']"]
  have same: "onDrop (\<lambda>i. parsing_backend) sample_ids [2, 1, 0] [sample_entry ''a'' ''x'']
      [csv_file, txt_file, pdf_file]
    = onDrop (\<lambda>i. parsing_backend) sample_ids [0, 1, 2] [sample_entry ''a'' ''x'']
      [csv_file, txt_file, pdf_file]"
    unfolding upt by blast
  have "onDrop (\<lambda>i. parsing_backend) sample_ids [2, 1, 0] [sample_entry ''a'' ''x'']
      [csv_file, txt_file, pdf_file]
    = Some (Inr ([sample_entry ''a'' ''x''] @
               concat (map (\<lambda>(i, file). case upload_try parsing_backend (sample_ids i) file of
                                            Inl e \<Rightarrow> [] | Inr u \<Rightarrow> [u])
                        (enumerate 0 [csv_file, txt_file, pdf_file]))))"
    by (rule onDrop_value [OF complete])
  also have "\<dots> = Some (Inr [sample_entry ''a'' ''x'', csv_entry 0, pdf_entry 2])"
    by (simp add: sample_eval)
  finally show ?thesis using same by simp
qed

text \<open>
  C4. A file with the media type of an \<^verbatim>\<open>.xlsx\<close> spreadsheet, which the drop zone accepts,
  does not take the tabular path: the type is neither \<^verbatim>\<open>text/csv\<close> nor does it contain
  \<^verbatim>\<open>excel\<close>, so the task throws the unsupported-type error before any request and
  yields \<^verbatim>\<open>null\<close>, and the file never enters the list.
\<close>

theorem xlsx_is_classified_unsupported:
  "upload_try post rid
     \<lparr>file_name = n, file_size = s,
      file_type = ''application/vnd.openxmlformats-officedocument.spreadsheetml.sheet''\<rparr>
   = Inl (Error ''Unsupported file type'')
   \<and> upload_task post rid
     \<lparr>file_name = n, file_size = s,
      file_type = ''application/vnd.openxmlformats-officedocument.spreadsheetml.sheet''\<rparr>
   = Inr None
   \<and> onDrop net rand [0] uploadedFiles
     [\<lparr>file_name = n, file_size = s,
       file_type = ''application/vnd.openxmlformats-officedocument.spreadsheetml.sheet''\<rparr>]
   = Some (Inr uploadedFiles)"
proof -
  have "{..<length [\<lparr>file_name = n, file_size = s,
       file_type = ''application/vnd.openxmlformats-officedocument.spreadsheetml.sheet''\<rparr>]}
      \<subseteq> set [0]"
    by auto
  from onDrop_value [OF this] show ?thesis
    by (simp add: upload_try_def upload_task_def Let_def)
qed

text \<open>
  C5. A send whose message consists of white space only (the empty message included)
  leaves the state as it is and sends no request.
\<close>

theorem blank_send_is_noop:
  assumes "\<forall>c \<in> set message. is_ws c"
  shows "handleSendMessage post now now' selectedPersona uploadedFiles st message = (st, [])"
  using assms by (simp add: handleSendMessage_def trim_Nil_iff)

theorem blank_send_is_noop_witness:
  "handleSendMessage parsing_backend ''t0'' ''t1'' ''Novice Guide'' [csv_entry 0] empty_chat
      [CHR 0x20, CHR 0x09, CHR 0x0A, CHR 0x20]
     = (empty_chat, [])
   \<and> handleSendMessage parsing_backend ''t0'' ''t1'' ''Novice Guide'' [csv_entry 0] empty_chat []
     = (empty_chat, [])"
proof -
  have "\<forall>c \<in> set [CHR 0x20, CHR 0x09, CHR 0x0A, CHR 0x20]. is_ws c" by (simp add: is_ws_def)
  moreover have "\<forall>c \<in> set []. is_ws c" by simp
  ultimately show ?thesis
    using blank_send_is_noop [of "[CHR 0x20, CHR 0x09, CHR 0x0A, CHR 0x20]"]
      blank_send_is_noop [of "[]"]
    by blast
qed

text \<open>
  C6, as amended. After a send with a message that is not blank: when the request is
  rejected (transport or service error), or resolves with \<^verbatim>\<open>null\<close> or \<^verbatim>\<open>undefined\<close>, the
  messages appended are the user message and then the assistant message with the fixed
  apology as content and no chart field. A response of any other shape is not examined:
  the assistant message appended after the user message has whatever the response holds
  under \<^verbatim>\<open>message\<close> as content (\<^verbatim>\<open>undefined\<close> when there is none), and the chart fields as
  read from the response. In either case the call ends in a state.
\<close>

theorem failed_exchange_appends_apology:
  assumes nonblank: "\<exists>c \<in> set message. \<not> is_ws c"
  shows "((\<exists>e. post (chat_request selectedPersona uploadedFiles (messages st) message) = Inl e)
          \<or> (\<exists>r. post (chat_request selectedPersona uploadedFiles (messages st) message) = Inr r
                 \<and> nullish r)
          \<longrightarrow>
          messages (fst (handleSendMessage post now now' selectedPersona uploadedFiles st message))
            = messages st @
              [\<lparr>role = User, content = JStr message, timestamp = now,
                chartData = JUndefined, toolType = JUndefined, statistics = JUndefined,
                chartMetadata = JUndefined\<rparr>,
               errorMessage now']
          \<and> role (errorMessage now') = Assistant
          \<and> content (errorMessage now') = JStr ''Sorry, I encountered an error. Please try again.''
          \<and> chartData (errorMessage now') = JUndefined
          \<and> toolType (errorMessage now') = JUndefined
          \<and> statistics (errorMessage now') = JUndefined
          \<and> chartMetadata (errorMessage now') = JUndefined)
         \<and> (\<forall>r. post (chat_request selectedPersona uploadedFiles (messages st) message) = Inr r
                 \<and> \<not> nullish r
          \<longrightarrow>
          messages (fst (handleSendMessage post now now' selectedPersona uploadedFiles st message))
            = messages st @
              [\<lparr>role = User, content = JStr message, timestamp = now,
                chartData = JUndefined, toolType = JUndefined, statistics = JUndefined,
                chartMetadata = JUndefined\<rparr>,
               \<lparr>role = Assistant, content = read_prop r ''message'', timestamp = now',
                chartData = opt_prop (read_prop r ''tool_result'') ''chart_data'',
                toolType = read_prop r ''tool_type'',
                statistics = opt_prop (read_prop r ''tool_result'') ''data_summary'',
                chartMetadata = opt_prop (read_prop r ''tool_result'') ''chart_metadata''\<rparr>])"
proof -
  from nonblank have "trim message \<noteq> []" by (simp add: trim_Nil_iff)
  note msgs = handleSendMessage_messages [OF this, of post now now' selectedPersona uploadedFiles st]
  have failing: "messages (fst (handleSendMessage post now now' selectedPersona uploadedFiles st message))
            = messages st @
              [\<lparr>role = User, content = JStr message, timestamp = now,
                chartData = JUndefined, toolType = JUndefined, statistics = JUndefined,
                chartMetadata = JUndefined\<rparr>,
               errorMessage now']"
    if "(\<exists>e. post (chat_request selectedPersona uploadedFiles (messages st) message) = Inl e)
          \<or> (\<exists>r. post (chat_request selectedPersona uploadedFiles (messages st) message) = Inr r
                 \<and> nullish r)"
  proof -
    from merge_response_failed [OF that] obtain e where
      "merge_response now' (post (chat_request selectedPersona uploadedFiles (messages st) message))
         = Inl e"
      by blast
    with msgs show ?thesis by simp
  qed
  have resolved: "messages (fst (handleSendMessage post now now' selectedPersona uploadedFiles st message))
            = messages st @
              [\<lparr>role = User, content = JStr message, timestamp = now,
                chartData = JUndefined, toolType = JUndefined, statistics = JUndefined,
                chartMetadata = JUndefined\<rparr>,
               \<lparr>role = Assistant, content = read_prop r ''message'', timestamp = now',
                chartData = opt_prop (read_prop r ''tool_result'') ''chart_data'',
                toolType = read_prop r ''tool_type'',
                statistics = opt_prop (read_prop r ''tool_result'') ''data_summary'',
                chartMetadata = opt_prop (read_prop r ''tool_result'') ''chart_metadata''\<rparr>]"
    if "post (chat_request selectedPersona uploadedFiles (messages st) message) = Inr r"
      and "\<not> nullish r" for r
    using msgs that by (simp add: merge_response_resolved)
  have fields: "role (errorMessage now') = Assistant
          \<and> content (errorMessage now') = JStr ''Sorry, I encountered an error. Please try again.''
          \<and> chartData (errorMessage now') = JUndefined
          \<and> toolType (errorMessage now') = JUndefined
          \<and> statistics (errorMessage now') = JUndefined
          \<and> chartMetadata (errorMessage now') = JUndefined"
    by (simp add: errorMessage_def apology_def)
  from failing resolved fields show ?thesis by blast
qed

theorem failed_exchange_appends_apology_witness:
  "messages (fst (handleSendMessage (\<lambda>request. Inl (AxiosError ''Network Error''))
      ''t0'' ''t1'' ''Novice Guide'' [] empty_chat ''hi''))
    = [\<lparr>role = User, content = JStr ''hi'', timestamp = ''t0'', chartData = JUndefined,
        toolType = JUndefined, statistics = JUndefined, chartMetadata = JUndefined\<rparr>,
       \<lparr>role = Assistant, content = JStr ''Sorry, I encountered an error. Please try again.'',
        timestamp = ''t1'', chartData = JUndefined,
        toolType = JUndefined, statistics = JUndefined, chartMetadata = JUndefined\<rparr>]
   \<and> messages (fst (handleSendMessage
        (\<lambda>request. Inr (JObj [(''message'', JStr ''Done''), (''tool_type'', JStr ''histogram''),
                               (''tool_result'', JObj [(''chart_data'', JStr ''iVBORw0KGgo='')])]))
      ''t0'' ''t1'' ''Novice Guide'' [] empty_chat ''hi''))
    = [\<lparr>role = User, content = JStr ''hi'', timestamp = ''t0'', chartData = JUndefined,
        toolType = JUndefined, statistics = JUndefined, chartMetadata = JUndefined\<rparr>,
       \<lparr>role = Assistant, content = JStr ''Done'', timestamp = ''t1'',
        chartData = JStr ''iVBORw0KGgo='', toolType = JStr ''histogram'',
        statistics = JUndefined, chartMetadata = JUndefined\<rparr>]"
proof -
  have nonblank: "\<exists>c \<in> set ''hi''. \<not> is_ws c" by (simp add: is_ws_def)
  let ?down = "\<lambda>request :: Request. (Inl (AxiosError ''Network Error'') :: js_exn + jsval)"
  let ?answer = "JObj [(''message'', JStr ''Done''), (''tool_type'', JStr ''histogram''),
                       (''tool_result'', JObj [(''chart_data'', JStr ''iVBORw0KGgo='')])]"
  let ?up = "\<lambda>request :: Request. (Inr ?answer :: js_exn + jsval)"
  have failed: "(\<exists>e. ?down (chat_request ''Novice Guide'' [] (messages empty_chat) ''hi'') = Inl e)
       \<or> (\<exists>r. ?down (chat_request ''Novice Guide'' [] (messages empty_chat) ''hi'') = Inr r
              \<and> nullish r)"
    by simp
  from failed_exchange_appends_apology [where post = ?down
      and message = "''hi''" and st = empty_chat
      and selectedPersona = "''Novice Guide''" and uploadedFiles = "[]" and now = "''t0''"
      and now' = "''t1''", OF nonblank] failed
  have a: "messages (fst (handleSendMessage ?down ''t0'' ''t1'' ''Novice Guide'' [] empty_chat ''hi''))
    = messages empty_chat @
      [\<lparr>role = User, content = JStr ''hi'', timestamp = ''t0'', chartData = JUndefined,
        toolType = JUndefined, statistics = JUndefined, chartMetadata = JUndefined\<rparr>,
       errorMessage ''t1'']"
    by blast
  have resolved: "?up (chat_request ''Novice Guide'' [] (messages empty_chat) ''hi'') = Inr ?answer
      \<and> \<not> nullish ?answer"
    by simp
  from failed_exchange_appends_apology [where post = ?up
      and message = "''hi''" and st = empty_chat
      and selectedPersona = "''Novice Guide''" and uploadedFiles = "[]" and now = "''t0''"
      and now' = "''t1''", OF nonblank] resolved
  have b: "messages (fst (handleSendMessage ?up ''t0'' ''t1'' ''Novice Guide'' [] empty_chat ''hi''))
    = messages empty_chat @
      [\<lparr>role = User, content = JStr ''hi'', timestamp = ''t0'', chartData = JUndefined,
        toolType = JUndefined, statistics = JUndefined, chartMetadata = JUndefined\<rparr>,
       \<lparr>role = Assistant, content = read_prop ?answer ''message'', timestamp = ''t1'',
        chartData = opt_prop (read_prop ?answer ''tool_result'') ''chart_data'',
        toolType = read_prop ?answer ''tool_type'',
        statistics = opt_prop (read_prop ?answer ''tool_result'') ''data_summary'',
        chartMetadata = opt_prop (read_prop ?answer ''tool_result'') ''chart_metadata''\<rparr>]"
    by blast
  from a b show ?thesis
    by (simp add: errorMessage_def apology_def empty_chat_def opt_prop_def)
qed

text \<open>
  C6 as stated fails for a malformed response: when the backend answers with an object
  that has no \<^verbatim>\<open>message\<close> field, nothing is thrown, and the content of the assistant
  message is \<^verbatim>\<open>undefined\<close>, not the apology.
\<close>

theorem malformed_response_counterexample:
  "content (last (messages (fst (handleSendMessage (\<lambda>request. Inr (JObj [(''type'', JStr ''chat'')]))
      ''t0'' ''t1'' ''Novice Guide'' [] empty_chat ''hi''))))
    = JUndefined
   \<and> content (last (messages (fst (handleSendMessage (\<lambda>request. Inr (JObj [(''type'', JStr ''chat'')]))
      ''t0'' ''t1'' ''Novice Guide'' [] empty_chat ''hi''))))
    \<noteq> JStr ''Sorry, I encountered an error. Please try again.''"
proof -
  have "trim ''hi'' \<noteq> []" by (simp add: trim_Nil_iff is_ws_def)
  from handleSendMessage_messages [OF this] show ?thesis
    by (simp add: merge_response_resolved)
qed

text \<open>
  C7. A send with a message that is not blank issues exactly one request. Its
  \<^verbatim>\<open>chat_history\<close> field is the serialisation of the messages of the state the send
  started from, its \<^verbatim>\<open>message\<close> field is the new message; in the state after the send
  those messages come first, unchanged, and the new user message follows them.
\<close>

theorem history_is_store_before_send:
  assumes "\<exists>c \<in> set message. \<not> is_ws c"
  shows "snd (handleSendMessage post now now' selectedPersona uploadedFiles st message)
           = [sendMessage_request message (messages st) (Some selectedPersona) None
                (JSON_stringify (fileContext uploadedFiles))]
         \<and> map_of (form (sendMessage_request message (messages st) (Some selectedPersona) None
                (JSON_stringify (fileContext uploadedFiles)))) ''chat_history''
           = Some (FText (''['' @ join '','' (stringify_elems (map message_json (messages st))) @ '']''))
         \<and> map_of (form (sendMessage_request message (messages st) (Some selectedPersona) None
                (JSON_stringify (fileContext uploadedFiles)))) ''message''
           = Some (FText message)
         \<and> take (length (messages st))
              (messages (fst (handleSendMessage post now now' selectedPersona uploadedFiles st message)))
           = messages st
         \<and> content (messages (fst (handleSendMessage post now now' selectedPersona uploadedFiles st message))
              ! length (messages st)) = JStr message"
proof -
  from assms have nb: "trim message \<noteq> []" by (simp add: trim_Nil_iff)
  then have "snd (handleSendMessage post now now' selectedPersona uploadedFiles st message)
           = [sendMessage_request message (messages st) (Some selectedPersona) None
                (JSON_stringify (fileContext uploadedFiles))]"
    by (simp add: handleSendMessage_def Let_def chat_request_def)
  moreover have "map_of (form (sendMessage_request message (messages st) (Some selectedPersona) None
                (JSON_stringify (fileContext uploadedFiles)))) ''chat_history''
           = Some (FText (''['' @ join '','' (stringify_elems (map message_json (messages st))) @ '']''))"
    by (simp add: sendMessage_request_def form_text_def)
  moreover have "map_of (form (sendMessage_request message (messages st) (Some selectedPersona) None
                (JSON_stringify (fileContext uploadedFiles)))) ''message''
           = Some (FText message)"
    by (simp add: sendMessage_request_def)
  ultimately show ?thesis
    using handleSendMessage_messages [OF nb, of post now now' selectedPersona uploadedFiles st]
    by (simp add: nth_append)
qed

theorem history_is_store_before_send_witness:
  \<open>map_of (form (hd (snd (handleSendMessage parsing_backend ''t0'' ''t1'' ''Expert'' []
        earlier_chat ''next'')))) ''chat_history''
     = Some (FText ''[{"role":"user","content":"q","timestamp":"2024-05-01T10:00:00.000Z"}]'')
   \<and> map content (messages (fst (handleSendMessage parsing_backend ''t0'' ''t1'' ''Expert'' []
        earlier_chat ''next'')))
     = [JStr ''q'', JStr ''next'', JUndefined]\<close>
proof -
  have nonblank: "\<exists>c \<in> set ''next''. \<not> is_ws c" by (simp add: is_ws_def)
  note fact = history_is_store_before_send [OF nonblank, of parsing_backend "''t0''" "''t1''"
      "''Expert''" "[]" earlier_chat]
  have elems: \<open>stringify_elems (map message_json (messages earlier_chat))
     = [''{"role":"user","content":"q","timestamp":"2024-05-01T10:00:00.000Z"}'']\<close>
    by (simp add: earlier_chat_def message_json_def json_eval)
  from fact have a: \<open>map_of (form (hd (snd (handleSendMessage parsing_backend ''t0'' ''t1'' ''Expert'' []
        earlier_chat ''next'')))) ''chat_history''
     = Some (FText ''[{"role":"user","content":"q","timestamp":"2024-05-01T10:00:00.000Z"}]'')\<close>
    by (simp add: elems)
  have "trim ''next'' \<noteq> []" by (simp add: trim_Nil_iff is_ws_def)
  from handleSendMessage_messages [OF this, of parsing_backend "''t0''" "''t1''" "''Expert''" "[]"
      earlier_chat]
  have "map content (messages (fst (handleSendMessage parsing_backend ''t0'' ''t1'' ''Expert'' []
        earlier_chat ''next'')))
     = [JStr ''q'', JStr ''next'', JUndefined]"
    by (simp add: earlier_chat_def parsing_backend_def chat_request_def sendMessage_request_def
        merge_response_resolved)
  with a show ?thesis by simp
qed

text \<open>
  C8. Let the uploaded-file list hold one tabular entry as \<^verbatim>\<open>onDrop\<close> builds it (type
  \<^verbatim>\<open>text/csv\<close> or containing \<^verbatim>\<open>excel\<close>, response with rows, columns and the csv tag), with
  rows and columns as a JSON text can deliver them. A send with a message that is not
  blank then issues one request; its \<^verbatim>\<open>csv_context\<close> field is a text that parses back to
  the list of one record with the name and type of the entry, the columns in its metadata
  and a content text, and the content text parses back to the rows. The record is the
  file context record of the entry, and for every list the file context is the list of
  the records of its entries. For the rows \<^verbatim>\<open>[{a: 1, b: 2}]\<close> and the columns \<^verbatim>\<open>[a, b]\<close> the
  content is \<^verbatim>\<open>[{"a":1,"b":2}]\<close>.
\<close>

theorem csv_context_round_trip:
  assumes tabular: "uf_type file = ''text/csv'' \<or> str_includes (uf_type file) ''excel''"
    and response: "uploadResponse file
      = JObj [(''data'', JArr rows), (''columns'', JArr columns),
              (''metadata'', JObj [(''type'', JStr ''csv'')])]"
    and clean: "clean_elems rows" "clean_elems columns"
    and nonblank: "\<exists>c \<in> set message. \<not> is_ws c"
  shows "(\<exists>content whole.
            snd (handleSendMessage post now now' selectedPersona [file] st message)
              = [chat_request selectedPersona [file] (messages st) message]
            \<and> map_of (form (chat_request selectedPersona [file] (messages st) message))
                  ''csv_context''
              = Some (FText whole)
            \<and> JSON_parse whole
              = Inr (JArr [JObj [(''name'', JStr (uf_name file)), (''type'', JStr (uf_type file)),
                                 (''content'', JStr content),
                                 (''metadata'', JObj [(''columns'', JArr columns),
                                                     (''type'', JStr ''csv'')])]])
            \<and> JSON_parse content = Inr (JArr rows)
            \<and> JSON_stringify (JArr rows) = Some content
            \<and> file_context_record file
              = JObj [(''name'', JStr (uf_name file)), (''type'', JStr (uf_type file)),
                      (''content'', JStr content),
                      (''metadata'', JObj [(''columns'', JArr columns),
                                          (''type'', JStr ''csv'')])])
         \<and> fileContext uploadedFiles = JArr (map file_context_record uploadedFiles)"
proof -
  note shape = file_context_record_csv [OF tabular response]
  from clean(1) have "json_clean (JArr rows)" by simp
  then obtain t where printed: "JSON_stringify (JArr rows) = Some t"
    and parsed: "JSON_parse t = Inr (JArr rows)"
    by (rule JSON_round_trip)
  let ?entry = "JObj [(''name'', JStr (uf_name file)), (''type'', JStr (uf_type file)),
                       (''content'', JStr t),
                       (''metadata'', JObj [(''columns'', JArr columns), (''type'', JStr ''csv'')])]"
  have entry: "file_context_record file = ?entry"
    using printed by (simp add: shape stringify_val_def)
  have ctx: "fileContext [file] = JArr [?entry]"
    by (simp add: fileContext_def entry)
  from clean(2) have "json_clean (JArr [?entry])"
    by (simp add: is_index_key_def is_digit_def)
  then obtain whole where whole: "JSON_stringify (JArr [?entry]) = Some whole"
    and reread: "JSON_parse whole = Inr (JArr [?entry])"
    by (rule JSON_round_trip)
  from whole have "whole \<noteq> []" by auto
  with whole have field: "map_of (form (chat_request selectedPersona [file] (messages st) message))
                  ''csv_context'' = Some (FText whole)"
    by (simp add: chat_request_def sendMessage_request_def ctx)
  from nonblank have "trim message \<noteq> []" by (simp add: trim_Nil_iff)
  then have sent: "snd (handleSendMessage post now now' selectedPersona [file] st message)
              = [chat_request selectedPersona [file] (messages st) message]"
    by (simp add: handleSendMessage_def Let_def)
  have every: "fileContext uploadedFiles = JArr (map file_context_record uploadedFiles)"
    by (simp add: fileContext_def)
  from sent field reread parsed printed entry every show ?thesis by blast
qed

theorem csv_context_round_trip_witness:
  \<open>upload_try parsing_backend (sample_ids 0) csv_file = Inr sample_csv
   \<and> file_context_record sample_csv
       = JObj [(''name'', JStr ''t.csv''), (''type'', JStr ''text/csv''),
               (''content'', JStr ''[{"a":1,"b":2}]''),
               (''metadata'', JObj [(''columns'', JArr [JStr ''a'', JStr ''b'']),
                                   (''type'', JStr ''csv'')])]
   \<and> JSON_parse ''[{"a":1,"b":2}]'' = Inr (JArr [JObj [(''a'', JNum 1), (''b'', JNum 2)]])
   \<and> (\<exists>whole. map_of (form (chat_request ''Novice Guide'' [sample_csv] (messages empty_chat) ''hi''))
                  ''csv_context'' = Some (FText whole)
         \<and> JSON_parse whole
             = Inr (JArr [JObj [(''name'', JStr ''t.csv''), (''type'', JStr ''text/csv''),
                                (''content'', JStr ''[{"a":1,"b":2}]''),
                                (''metadata'', JObj [(''columns'', JArr [JStr ''a'', JStr ''b'']),
                                                    (''type'', JStr ''csv'')])]]))\<close>
proof -
  have built: "upload_try parsing_backend (sample_ids 0) csv_file = Inr sample_csv"
    by (simp add: sample_csv_def sample_rows_def sample_columns_def sample_eval)
  have tabular: "uf_type sample_csv = ''text/csv'' \<or> str_includes (uf_type sample_csv) ''excel''"
    by (simp add: sample_csv_def csv_entry_def)
  have response: "uploadResponse sample_csv
      = JObj [(''data'', JArr [JObj [(''a'', JNum 1), (''b'', JNum 2)]]),
              (''columns'', JArr [JStr ''a'', JStr ''b'']),
              (''metadata'', JObj [(''type'', JStr ''csv'')])]"
    by (simp add: sample_csv_def csv_entry_def sample_rows_def sample_columns_def)
  have clean: "clean_elems [JObj [(''a'', JNum 1), (''b'', JNum 2)]]" "clean_elems [JStr ''a'', JStr ''b'']"
    by (simp_all add: is_index_key_def is_digit_def)
  have nonblank: "\<exists>c \<in> set ''hi''. \<not> is_ws c" by (simp add: is_ws_def)
  have printed: \<open>JSON_stringify (JArr [JObj [(''a'', JNum 1), (''b'', JNum 2)]])
      = Some ''[{"a":1,"b":2}]''\<close>
    by (simp add: json_eval)
  have names: "uf_name sample_csv = ''t.csv''" "uf_type sample_csv = ''text/csv''"
    by (simp_all add: sample_csv_def csv_entry_def)
  from csv_context_round_trip [OF tabular response clean nonblank,
      of parsing_backend "''t0''" "''t1''" "''Novice Guide''" empty_chat]
  obtain content whole where
    field: "map_of (form (chat_request ''Novice Guide'' [sample_csv] (messages empty_chat) ''hi''))
                  ''csv_context'' = Some (FText whole)"
    and whole: "JSON_parse whole
              = Inr (JArr [JObj [(''name'', JStr (uf_name sample_csv)),
                                 (''type'', JStr (uf_type sample_csv)),
                                 (''content'', JStr content),
                                 (''metadata'', JObj [(''columns'', JArr [JStr ''a'', JStr ''b'']),
                                                     (''type'', JStr ''csv'')])]])"
    and parsed: "JSON_parse content = Inr (JArr [JObj [(''a'', JNum 1), (''b'', JNum 2)]])"
    and shown: "JSON_stringify (JArr [JObj [(''a'', JNum 1), (''b'', JNum 2)]]) = Some content"
    and entry: "file_context_record sample_csv
              = JObj [(''name'', JStr (uf_name sample_csv)), (''type'', JStr (uf_type sample_csv)),
                      (''content'', JStr content),
                      (''metadata'', JObj [(''columns'', JArr [JStr ''a'', JStr ''b'']),
                                          (''type'', JStr ''csv'')])]"
    by blast
  from shown printed have content: \<open>content = ''[{"a":1,"b":2}]''\<close> by simp
  from built field whole parsed entry show ?thesis
    unfolding content names by blast
qed

text \<open>
  C9, as amended. The name of the downloaded file is the tool type with every underscore
  replaced by a hyphen, every other character kept, followed by \<^verbatim>\<open>-chart.png\<close>; so
  \<^verbatim>\<open>pareto_chart\<close> yields \<^verbatim>\<open>pareto-chart-chart.png\<close>. The text handed to the decoder is
  the chart data without their beginning when they begin with \<^verbatim>\<open>data:image/\<close>, one or more
  word characters and \<^verbatim>\<open>;base64,\<close>; chart data of any other form, and so those that do not
  begin with \<^verbatim>\<open>data:image/\<close>, are handed over as they are.
\<close>

theorem export_filename_underscores:
  "length (export_filename tool) = length tool + 10
   \<and> drop (length tool) (export_filename tool) = ''-chart.png''
   \<and> (\<forall>i < length tool.
         export_filename tool ! i = (if tool ! i = CHR ''_'' then CHR ''-'' else tool ! i))
   \<and> export_filename ''pareto_chart'' = ''pareto-chart-chart.png''
   \<and> snd (download_chart chart tool) = export_filename tool
   \<and> (\<forall>w d. w \<noteq> [] \<and> (\<forall>c \<in> set w. is_word_char c) \<longrightarrow>
         fst (download_chart (''data:image/'' @ w @ '';base64,'' @ d) tool) = d)
   \<and> (\<not> (\<exists>w d. w \<noteq> [] \<and> (\<forall>c \<in> set w. is_word_char c)
              \<and> chart = ''data:image/'' @ w @ '';base64,'' @ d)
        \<longrightarrow> fst (download_chart chart tool) = chart)
   \<and> (\<not> prefix ''data:image/'' chart \<longrightarrow> fst (download_chart chart tool) = chart)"
proof -
  have "length (export_filename tool) = length tool + 10"
    by (simp add: export_filename_def replace_underscores_def)
  moreover have "drop (length tool) (export_filename tool) = ''-chart.png''"
    by (simp add: export_filename_def replace_underscores_def)
  moreover have "export_filename ''pareto_chart'' = ''pareto-chart-chart.png''"
    by (simp add: export_filename_def replace_underscores_def)
  moreover have "snd (download_chart chart tool) = export_filename tool"
    by (simp add: download_chart_def)
  moreover have "\<not> (\<exists>w d. w \<noteq> [] \<and> (\<forall>c \<in> set w. is_word_char c)
              \<and> chart = ''data:image/'' @ w @ '';base64,'' @ d)
        \<longrightarrow> fst (download_chart chart tool) = chart"
    using strip_data_prefix_changed [of chart] by (auto simp: download_chart_def)
  ultimately show ?thesis
    using export_filename_nth strip_data_prefix_image strip_data_prefix_other
    by (simp add: download_chart_def)
qed

theorem export_filename_underscores_witness:
  "export_filename ''control_chart'' ! 7 = CHR ''-''
   \<and> fst (download_chart ''data:image/png;base64,iVBORw0KGgo='' ''histogram'') = ''iVBORw0KGgo=''
   \<and> fst (download_chart ''iVBORw0KGgo='' ''histogram'') = ''iVBORw0KGgo=''
   \<and> fst (download_chart ''data:image/png;charset=utf-8;base64,AAAA'' ''histogram'')
       = ''data:image/png;charset=utf-8;base64,AAAA''"
proof -
  have "(7::nat) < length ''control_chart''" by simp
  with export_filename_underscores [of "''control_chart''" "''iVBORw0KGgo=''"]
  have a: "export_filename ''control_chart'' ! 7
      = (if ''control_chart'' ! 7 = CHR ''_'' then CHR ''-'' else ''control_chart'' ! 7)"
    by blast
  have "''png'' \<noteq> [] \<and> (\<forall>c \<in> set ''png''. is_word_char c)" by (simp add: is_word_char_def)
  with export_filename_underscores [of "''histogram''" "''iVBORw0KGgo=''"]
  have b: "fst (download_chart (''data:image/'' @ ''png'' @ '';base64,'' @ ''iVBORw0KGgo='') ''histogram'')
      = ''iVBORw0KGgo=''"
    by blast
  have "\<not> prefix ''data:image/'' ''iVBORw0KGgo=''" by simp
  with export_filename_underscores [of "''histogram''" "''iVBORw0KGgo=''"]
  have c: "fst (download_chart ''iVBORw0KGgo='' ''histogram'') = ''iVBORw0KGgo=''"
    by blast
  have other: "\<not> (\<exists>w d. w \<noteq> [] \<and> (\<forall>c \<in> set w. is_word_char c)
      \<and> ''data:image/png;charset=utf-8;base64,AAAA'' = ''data:image/'' @ w @ '';base64,'' @ d)"
  proof
    assume "\<exists>w d. w \<noteq> [] \<and> (\<forall>c \<in> set w. is_word_char c)
      \<and> ''data:image/png;charset=utf-8;base64,AAAA'' = ''data:image/'' @ w @ '';base64,'' @ d"
    then obtain w d where w: "\<forall>c \<in> set w. is_word_char c"
      and eq: "''png;charset=utf-8;base64,AAAA'' = w @ '';base64,'' @ d"
      by auto
    have "\<not> is_word_char (CHR '';'')" by (simp add: is_word_char_def)
    with w have "dropWhile is_word_char (w @ '';base64,'' @ d) = '';base64,'' @ d"
      by (simp add: dropWhile_append2)
    with eq have "dropWhile is_word_char ''png;charset=utf-8;base64,AAAA'' = '';base64,'' @ d"
      by simp
    then show False by (simp add: is_word_char_def)
  qed
  with export_filename_underscores [of "''histogram''" "''data:image/png;charset=utf-8;base64,AAAA''"]
  have e: "fst (download_chart ''data:image/png;charset=utf-8;base64,AAAA'' ''histogram'')
       = ''data:image/png;charset=utf-8;base64,AAAA''"
    by blast
  from a b c e show ?thesis by simp
qed

text \<open>
  C9 as stated fails: a separator other than the underscore is kept, so the tool type
  \<^verbatim>\<open>control chart\<close> yields a name with the blank in it, where the wording of the
  specification gives \<^verbatim>\<open>control-chart-chart.png\<close>; and an embedded prefix whose media
  type is not made of word characters, as in \<^verbatim>\<open>data:image/svg+xml;base64,\<close>, is not
  stripped.
\<close>

theorem export_filename_counterexample:
  "export_filename ''control chart'' = ''control chart-chart.png''
   \<and> spec_filename ''control chart'' = ''control-chart-chart.png''
   \<and> export_filename ''control chart'' \<noteq> spec_filename ''control chart''
   \<and> strip_data_prefix ''data:image/svg+xml;base64,AAAA'' = ''data:image/svg+xml;base64,AAAA''"
  by (simp add: export_filename_def replace_underscores_def spec_filename_def is_alnum_def
      is_word_char_def strip_data_prefix_def)

text \<open>
  C10. Removing an id drops exactly the entries that carry it: no entry of the result has
  the id, the entries with another id are the same as before, in the same order and as
  often, the result is a subsequence of the list, and an id that is not in the list
  leaves the list as it was.
\<close>

theorem removeFile_frame:
  "(\<forall>f \<in> set (removeFile uploadedFiles i). uf_id f \<noteq> i)
   \<and> filter (\<lambda>f. uf_id f \<noteq> i) (removeFile uploadedFiles i)
       = filter (\<lambda>f. uf_id f \<noteq> i) uploadedFiles
   \<and> set (removeFile uploadedFiles i) = {f \<in> set uploadedFiles. uf_id f \<noteq> i}
   \<and> subseq (removeFile uploadedFiles i) uploadedFiles
   \<and> (i \<notin> uf_id ` set uploadedFiles \<longrightarrow> removeFile uploadedFiles i = uploadedFiles)"
proof -
  have absent: "removeFile uploadedFiles i = uploadedFiles" if "i \<notin> uf_id ` set uploadedFiles"
  proof -
    from that have "\<forall>f \<in> set uploadedFiles. uf_id f \<noteq> i" by auto
    then show ?thesis unfolding removeFile_def by (simp add: filter_id_conv)
  qed
  show ?thesis
    using absent by (auto simp: removeFile_def)
qed

theorem removeFile_frame_witness:
  "removeFile [sample_entry ''a'' ''x'', sample_entry ''b'' ''y'', sample_entry ''a'' ''z''] ''a''
     = [sample_entry ''b'' ''y'']
   \<and> removeFile [sample_entry ''a'' ''x'', sample_entry ''b'' ''y''] ''c''
     = [sample_entry ''a'' ''x'', sample_entry ''b'' ''y'']"
proof -
  have "''c'' \<notin> uf_id ` set [sample_entry ''a'' ''x'', sample_entry ''b'' ''y'']"
    by (simp add: sample_entry_def)
  with removeFile_frame [of "[sample_entry ''a'' ''x'', sample_entry ''b'' ''y'']" "''c''"]
  have "removeFile [sample_entry ''a'' ''x'', sample_entry ''b'' ''y''] ''c''
     = [sample_entry ''a'' ''x'', sample_entry ''b'' ''y'']"
    by blast
  moreover have "removeFile [sample_entry ''a'' ''x'', sample_entry ''b'' ''y'', sample_entry ''a'' ''z''] ''a''
     = [sample_entry ''b'' ''y'']"
    by (simp add: removeFile_def sample_entry_def)
  ultimately show ?thesis by simp
qed

end
